theory Spec2Isabelle
  imports
    Complex_Main
    "HOL-Library.Multiset"
    "HOL-Library.AList"
    "HOL-Library.Char_ord"
    "HOL-Library.List_Lexorder"
    "HOL-Library.Product_Lexorder"
begin

section \<open>Shift Flight Deck rules engine (scripts/analyze\_workbook.py)\<close>

text \<open>
  A shallow embedding of the rule DSL parser, the predicate library, the rule evaluator,
  the trigger ranker and the recommendation sanitizer of \<^verbatim>\<open>analyze_workbook.py\<close>.

  Conventions of the embedding.
  \<^item> Text is a \<open>string\<close> of ASCII characters. Python's \<^verbatim>\<open>str.strip\<close> and the
    regular-expression class \<^verbatim>\<open>\s\<close> share one whitespace set, whose ASCII members are the
    codes 9 to 13 and 28 to 32; \<^verbatim>\<open>\d\<close> is read as the ASCII digits.
  \<^item> A raised exception is the \<open>Inl\<close> branch of a sum; the first one raised wins.
  \<^item> Library functions of Python that the repository only calls (\<^verbatim>\<open>strptime\<close>,
    \<^verbatim>\<open>float\<close> and \<^verbatim>\<open>int\<close> of arbitrary text, \<^verbatim>\<open>str\<close> of a float or of a date-time,
    \<^verbatim>\<open>isoformat\<close>, the iteration order of a \<^verbatim>\<open>set\<close>) are fields of an environment
    record \<open>env\<close>; the readings of \<^verbatim>\<open>datetime.now()\<close> are a separate argument.
\<close>

subsection \<open>Characters and text\<close>

definition is_space :: "char \<Rightarrow> bool" where
  "is_space c = (let n = (of_char c :: int) in (9 \<le> n \<and> n \<le> 13) \<or> (28 \<le> n \<and> n \<le> 32))"

definition is_upper :: "char \<Rightarrow> bool" where
  "is_upper c = (let n = (of_char c :: int) in 65 \<le> n \<and> n \<le> 90)"

definition is_lower :: "char \<Rightarrow> bool" where
  "is_lower c = (let n = (of_char c :: int) in 97 \<le> n \<and> n \<le> 122)"

definition is_digit :: "char \<Rightarrow> bool" where
  "is_digit c = (let n = (of_char c :: int) in 48 \<le> n \<and> n \<le> 57)"

text \<open>The class \<^verbatim>\<open>[A-Z_]\<close> of a function name and the class \<^verbatim>\<open>[a-zA-Z_]\<close> of a key.\<close>

definition is_name_char :: "char \<Rightarrow> bool" where
  "is_name_char c = (is_upper c \<or> c = CHR ''_'')"

definition is_key_char :: "char \<Rightarrow> bool" where
  "is_key_char c = (is_upper c \<or> is_lower c \<or> c = CHR ''_'')"

definition lower_char :: "char \<Rightarrow> char" where
  "lower_char c = (if is_upper c then char_of (of_char c + (32 :: int)) else c)"

definition upper_char :: "char \<Rightarrow> char" where
  "upper_char c = (if is_lower c then char_of (of_char c - (32 :: int)) else c)"

definition lower :: "string \<Rightarrow> string" where
  "lower s = map lower_char s"

definition upper :: "string \<Rightarrow> string" where
  "upper s = map upper_char s"

text \<open>\<^verbatim>\<open>s.strip()\<close> and \<^verbatim>\<open>s.strip('"')\<close>.\<close>

definition strip_chars :: "(char \<Rightarrow> bool) \<Rightarrow> string \<Rightarrow> string" where
  "strip_chars p s = rev (dropWhile p (rev (dropWhile p s)))"

definition strip :: "string \<Rightarrow> string" where
  "strip s = strip_chars is_space s"

definition strip_quotes :: "string \<Rightarrow> string" where
  "strip_quotes s = strip_chars (\<lambda>c. c = CHR 0x22) s"

text \<open>\<^verbatim>\<open>s.startswith(b)\<close> and the substring test \<^verbatim>\<open>b in s\<close>.\<close>

definition startswith :: "string \<Rightarrow> string \<Rightarrow> bool" where
  "startswith s b = (take (length b) s = b)"

fun contains :: "string \<Rightarrow> string \<Rightarrow> bool" where
  "contains [] b = (b = [])"
| "contains (c # cs) b = (startswith (c # cs) b \<or> contains cs b)"

subsection \<open>Python values\<close>

text \<open>
  An exception of the interpreter. \<open>ValueError\<close> carries the message where the
  repository writes one.
\<close>

datatype error = ValueError string | OverflowError

text \<open>
  A Python \<^verbatim>\<open>float\<close>: a finite value, an infinity or a NaN. Finite values are kept as
  exact rationals: comparisons are those of the doubles, while the rounding of arithmetic
  results to 53 bits is not modelled (only its overflow to an infinity is).
\<close>

datatype pyfloat = Finite rat | PosInf | NegInf | NaN

definition float_overflow :: rat where
  "float_overflow = 2 ^ 1024 - 2 ^ 970"

definition round_float :: "rat \<Rightarrow> pyfloat" where
  "round_float x =
     (if float_overflow \<le> x then PosInf else if x \<le> - float_overflow then NegInf else Finite x)"

text \<open>\<^verbatim>\<open>float(i)\<close> of an \<^verbatim>\<open>int\<close> raises where the value would round to an infinity.\<close>

definition float_of_int :: "int \<Rightarrow> error + pyfloat" where
  "float_of_int i =
     (if float_overflow \<le> \<bar>of_int i\<bar> then Inl OverflowError else Inr (Finite (of_int i)))"

text \<open>\<^verbatim>\<open>int(x)\<close> of a \<^verbatim>\<open>float\<close> truncates towards zero.\<close>

fun int_of_float :: "pyfloat \<Rightarrow> error + int" where
  "int_of_float (Finite r) = Inr (if 0 \<le> r then \<lfloor>r\<rfloor> else \<lceil>r\<rceil>)"
| "int_of_float NaN = Inl (ValueError ''cannot convert float NaN to integer'')"
| "int_of_float _ = Inl OverflowError"

fun flt_less :: "pyfloat \<Rightarrow> pyfloat \<Rightarrow> bool" where
  "flt_less (Finite a) (Finite b) = (a < b)"
| "flt_less (Finite a) PosInf = True"
| "flt_less NegInf (Finite b) = True"
| "flt_less NegInf PosInf = True"
| "flt_less _ _ = False"

fun flt_le :: "pyfloat \<Rightarrow> pyfloat \<Rightarrow> bool" where
  "flt_le NaN _ = False"
| "flt_le _ NaN = False"
| "flt_le a b = (a = b \<or> flt_less a b)"

subsection \<open>DSL parser\<close>

text \<open>A typed literal of a call, and a call: the function name with its keyword arguments.\<close>

datatype arg = AInt int | AFloat pyfloat | AStr string

type_synonym call = "string \<times> (string \<times> arg) list"

definition int_of_digits :: "string \<Rightarrow> int" where
  "int_of_digits ds = foldl (\<lambda>a c. 10 * a + (of_char c - 48)) 0 ds"

text \<open>
  The literal patterns \<^verbatim>\<open>^-?\d+\.\d+$\<close> and \<^verbatim>\<open>^-?\d+$\<close>. They are matched against a
  piece of the argument text, which holds no line break (the call pattern's \<^verbatim>\<open>.\<close> excludes
  it), so \<^verbatim>\<open>$\<close> is the end of the text. Python's integers are unbounded; the limit that
  recent interpreters put on the length of an integer literal (4300 digits unless
  configured otherwise) is not modelled.
\<close>

definition unsigned :: "string \<Rightarrow> bool \<times> string" where
  "unsigned v = (case v of [] \<Rightarrow> (False, v)
                 | c # r \<Rightarrow> if c = CHR ''-'' then (True, r) else (False, v))"

definition digits_only :: "string \<Rightarrow> bool" where
  "digits_only ds = (ds \<noteq> [] \<and> list_all is_digit ds)"

definition is_float_literal :: "string \<Rightarrow> bool" where
  "is_float_literal v =
     (let u = snd (unsigned v); ip = takeWhile is_digit u in
      case dropWhile is_digit u of
        [] \<Rightarrow> False
      | c # fr \<Rightarrow> c = CHR ''.'' \<and> ip \<noteq> [] \<and> digits_only fr)"

definition is_int_literal :: "string \<Rightarrow> bool" where
  "is_int_literal v = digits_only (snd (unsigned v))"

definition float_literal :: "string \<Rightarrow> pyfloat" where
  "float_literal v =
     (let (neg, u) = unsigned v;
          ip = takeWhile is_digit u;
          fr = tl (dropWhile is_digit u);
          x = of_int (int_of_digits ip) + of_int (int_of_digits fr) / 10 ^ length fr
      in round_float (if neg then - x else x))"

definition int_literal :: "string \<Rightarrow> int" where
  "int_literal v =
     (let (neg, u) = unsigned v; n = int_of_digits u in if neg then - n else n)"

definition cast :: "string \<Rightarrow> arg" where
  "cast v = (if is_float_literal v then AFloat (float_literal v)
             else if is_int_literal v then AInt (int_literal v)
             else AStr v)"

text \<open>
  \<^verbatim>\<open>re.match(r"([A-Z_]+)\((.*)\)", s)\<close>: the name is the longest run of name characters
  at the start, followed at once by an opening parenthesis; the argument text runs to the
  last closing parenthesis of the same line. Text after that parenthesis is not looked at.
\<close>

definition match_call :: "string \<Rightarrow> (string \<times> string) option" where
  "match_call s =
     (let fn = takeWhile is_name_char s in
      case dropWhile is_name_char s of
        [] \<Rightarrow> None
      | c # t \<Rightarrow>
          (let line = takeWhile (\<lambda>c. c \<noteq> CHR 0x0A) t in
           if fn \<noteq> [] \<and> c = CHR ''('' \<and> CHR '')'' \<in> set line
           then Some (fn, rev (tl (dropWhile (\<lambda>c. c \<noteq> CHR '')'') (rev line))))
           else None))"

text \<open>
  \<^verbatim>\<open>re.split(r",\s*(?=[a-zA-Z_]+=)", raw)\<close>: a comma separates two arguments when the
  text after it and after the whitespace that follows starts with a key and an equals
  sign. The first argument of \<open>split_args\<close> is the current piece, reversed.
\<close>

definition key_ahead :: "string \<Rightarrow> bool" where
  "key_ahead t = (takeWhile is_key_char t \<noteq> [] \<and>
                  (case dropWhile is_key_char t of [] \<Rightarrow> False | c # _ \<Rightarrow> c = CHR ''=''))"

function split_args :: "string \<Rightarrow> string \<Rightarrow> string list" where
  "split_args cur [] = [rev cur]"
| "split_args cur (c # cs) =
     (if c = CHR '','' \<and> key_ahead (dropWhile is_space cs)
      then rev cur # split_args [] (dropWhile is_space cs)
      else split_args (c # cur) cs)"
  by pat_completeness auto
termination
  by (relation "measure (\<lambda>(cur, s). length s)")
     (auto simp: less_Suc_eq_le length_dropWhile_le)

text \<open>
  The loop over the pieces: a blank piece is skipped; \<^verbatim>\<open>k, v = part.split("=", 1)\<close>
  raises \<^verbatim>\<open>ValueError\<close> on a piece without an equals sign. The argument dictionary is
  an association list in insertion order; a later value of a key replaces the earlier one
  in place, as an assignment to a \<^verbatim>\<open>dict\<close> does.
\<close>

definition unpack_message :: string where
  "unpack_message = ''not enough values to unpack (expected 2, got 1)''"

fun parse_parts :: "string list \<Rightarrow> (string \<times> arg) list \<Rightarrow> error + (string \<times> arg) list" where
  "parse_parts [] args = Inr args"
| "parse_parts (part # ps) args =
     (if strip part = [] then parse_parts ps args
      else if CHR ''='' \<notin> set part then Inl (ValueError unpack_message)
      else
        (let k = takeWhile (\<lambda>c. c \<noteq> CHR ''='') part;
             v = strip_quotes (strip (tl (dropWhile (\<lambda>c. c \<noteq> CHR ''='') part)))
         in parse_parts ps (AList.update (strip k) (cast v) args)))"

definition parse_call :: "string \<Rightarrow> error + call" where
  "parse_call expr =
     (case match_call (strip expr) of
        None \<Rightarrow> Inl (ValueError (''Invalid DSL expression: '' @ expr))
      | Some (fn, raw) \<Rightarrow>
          (case parse_parts (split_args [] raw) [] of
             Inl e \<Rightarrow> Inl e
           | Inr args \<Rightarrow> Inr (fn, args)))"

text \<open>
  \<^verbatim>\<open>re.split(r"\s+AND\s+", iflogic)\<close>: a separator is a whole run of whitespace, the
  word \<^verbatim>\<open>AND\<close>, and the whole run of whitespace (at least one character) after it.
\<close>

function split_and :: "string \<Rightarrow> string \<Rightarrow> string list" where
  "split_and cur [] = [rev cur]"
| "split_and cur (c # cs) =
     (if is_space c then
        (let r = dropWhile is_space cs in
         if startswith r ''AND'' \<and> (case drop 3 r of [] \<Rightarrow> False | d # _ \<Rightarrow> is_space d)
         then rev cur # split_and [] (dropWhile is_space (drop 3 r))
         else split_and (rev (takeWhile is_space cs) @ c # cur) r)
      else split_and (c # cur) cs)"
  by pat_completeness auto
termination
proof (relation "measure (\<lambda>(cur, s). length s)", goal_cases)
  case 1
  show ?case by simp
next
  case (2 cur c cs r)
  have "length (dropWhile is_space (drop 3 r)) \<le> length (drop 3 r)"
    by (rule length_dropWhile_le)
  also have "\<dots> \<le> length r" by simp
  also have "\<dots> \<le> length cs" unfolding 2 by (rule length_dropWhile_le)
  finally show ?case by simp
next
  case (3 cur c cs r)
  then show ?case by (simp add: less_Suc_eq_le length_dropWhile_le)
next
  case (4 cur c cs)
  show ?case by simp
qed

text \<open>The calls of a condition, in order; the first call that fails to parse raises.\<close>

fun parse_calls :: "string list \<Rightarrow> error + call list" where
  "parse_calls [] = Inr []"
| "parse_calls (c # cs) =
     (case parse_call c of
        Inl e \<Rightarrow> Inl e
      | Inr x \<Rightarrow> (case parse_calls cs of Inl e \<Rightarrow> Inl e | Inr xs \<Rightarrow> Inr (x # xs)))"

definition parse_iflogic :: "string \<Rightarrow> error + call list" where
  "parse_iflogic iflogic =
     parse_calls (filter (\<lambda>c. c \<noteq> []) (map strip (split_and [] iflogic)))"

subsection \<open>Recommendation sanitizer\<close>

definition banned :: "string list" where
  "banned = [''disciplinary'', ''write-up'', ''punish'', ''terminate'']"

definition coaching_fallback :: string where
  "coaching_fallback =
     ''Provide coaching and process support to remove the operational barrier.''"

definition sanitize_recommendation :: "string \<Rightarrow> string" where
  "sanitize_recommendation text =
     (if list_ex (\<lambda>b. contains (lower text) b) banned then coaching_fallback else text)"

subsection \<open>Cells, rows and the environment\<close>

text \<open>
  The value of a workbook cell: empty, a boolean, a number, text or a date-time. A cell
  float is finite. A date-time is its distance in microseconds from
  \<^verbatim>\<open>datetime.min\<close> (the start of year 1); \<^verbatim>\<open>datetime.max\<close> is \<open>dt_max\<close>.
\<close>

datatype pyval = PNone | PBool bool | PInt int | PFloat rat | PStr string | PDateTime int

text \<open>A row (\<^verbatim>\<open>dict\<close>) lists its items; \<^verbatim>\<open>d.get(k)\<close> and \<^verbatim>\<open>d.get(k, default)\<close>.\<close>

type_synonym row = "(string \<times> pyval) list"

definition get_default :: "row \<Rightarrow> string \<Rightarrow> pyval \<Rightarrow> pyval" where
  "get_default r k d = (case map_of r k of None \<Rightarrow> d | Some v \<Rightarrow> v)"

definition row_get :: "row \<Rightarrow> string \<Rightarrow> pyval" where
  "row_get r k = get_default r k PNone"

text \<open>
  Python's \<^verbatim>\<open>==\<close> and \<^verbatim>\<open>hash\<close> identify \<^verbatim>\<open>True\<close>, \<^verbatim>\<open>1\<close> and \<^verbatim>\<open>1.0\<close>: two values are
  equal as dictionary keys or set members when their normal forms are. A hit key is a
  tuple of cell values.
\<close>

fun canon :: "pyval \<Rightarrow> pyval" where
  "canon (PBool b) = PInt (if b then 1 else 0)"
| "canon (PFloat r) = (if of_int \<lfloor>r\<rfloor> = r then PInt \<lfloor>r\<rfloor> else PFloat r)"
| "canon v = v"

definition py_eq :: "pyval \<Rightarrow> pyval \<Rightarrow> bool" where
  "py_eq a b = (canon a = canon b)"

type_synonym hitkey = "pyval list"

definition key_eq :: "hitkey \<Rightarrow> hitkey \<Rightarrow> bool" where
  "key_eq a b = (map canon a = map canon b)"

definition key_mem :: "hitkey \<Rightarrow> hitkey list \<Rightarrow> bool" where
  "key_mem k ks = list_ex (key_eq k) ks"

text \<open>Building a set from a sequence keeps the first of equal members.\<close>

fun key_set :: "hitkey list \<Rightarrow> hitkey list" where
  "key_set [] = []"
| "key_set (k # ks) = k # key_set (filter (\<lambda>x. \<not> key_eq k x) ks)"

text \<open>Truth value of a cell, as \<^verbatim>\<open>or\<close> and \<^verbatim>\<open>not\<close> see it.\<close>

fun truthy :: "pyval \<Rightarrow> bool" where
  "truthy PNone = False"
| "truthy (PBool b) = b"
| "truthy (PInt i) = (i \<noteq> 0)"
| "truthy (PFloat r) = (r \<noteq> 0)"
| "truthy (PStr s) = (s \<noteq> [])"
| "truthy (PDateTime t) = True"

definition dt_max :: int where
  "dt_max = 3652059 * 86400 * 1000000 - 1"

text \<open>
  What the run takes from the Python library. \<open>strptime env text fmt\<close>,
  \<open>float_of_str\<close> and \<open>int_of_str\<close> are \<open>None\<close> where the library raises
  \<^verbatim>\<open>ValueError\<close>. \<open>set_order\<close> is the order in which a \<^verbatim>\<open>set\<close> with the given members
  is iterated.

  The system clock is a separate argument \<open>clk\<close> of the functions that read it:
  \<open>clk i\<close> is the reading of the \<open>i\<close>-th call of \<^verbatim>\<open>datetime.now()\<close> in a run, and
  the evaluator threads the number of readings taken so far.
\<close>

type_synonym clock = "nat \<Rightarrow> int"

record env =
  strptime :: "string \<Rightarrow> string \<Rightarrow> int option"
  float_of_str :: "string \<Rightarrow> pyfloat option"
  int_of_str :: "string \<Rightarrow> int option"
  str_of_float :: "pyfloat \<Rightarrow> string"
  str_of_datetime :: "int \<Rightarrow> string"
  isoformat :: "int \<Rightarrow> string"
  set_order :: "hitkey list \<Rightarrow> hitkey list"

text \<open>\<^verbatim>\<open>str(x)\<close>; \<open>str_of_nat\<close> writes the decimal digits of an integer that is not negative.\<close>

function str_of_nat :: "int \<Rightarrow> string" where
  "str_of_nat n =
     (if n < 10 then [char_of (48 + n)] else str_of_nat (n div 10) @ [char_of (48 + n mod 10)])"
  by pat_completeness auto
termination
  by (relation "measure nat") auto

declare str_of_nat.simps [simp del]

definition str_of_int :: "int \<Rightarrow> string" where
  "str_of_int i = (if i < 0 then CHR ''-'' # str_of_nat (- i) else str_of_nat i)"

fun py_str :: "env \<Rightarrow> pyval \<Rightarrow> string" where
  "py_str env PNone = ''None''"
| "py_str env (PBool b) = (if b then ''True'' else ''False'')"
| "py_str env (PInt i) = str_of_int i"
| "py_str env (PFloat r) = str_of_float env (Finite r)"
| "py_str env (PStr s) = s"
| "py_str env (PDateTime t) = str_of_datetime env t"

fun arg_str :: "env \<Rightarrow> arg \<Rightarrow> string" where
  "arg_str env (AInt i) = str_of_int i"
| "arg_str env (AFloat f) = str_of_float env f"
| "arg_str env (AStr s) = s"

text \<open>\<^verbatim>\<open>float(a)\<close> and \<^verbatim>\<open>int(a)\<close> of a call argument.\<close>

fun arg_float :: "env \<Rightarrow> arg \<Rightarrow> error + pyfloat" where
  "arg_float env (AInt i) = float_of_int i"
| "arg_float env (AFloat f) = Inr f"
| "arg_float env (AStr s) =
     (case float_of_str env s of
        None \<Rightarrow> Inl (ValueError (''could not convert string to float: '' @ s))
      | Some f \<Rightarrow> Inr f)"

fun arg_int :: "env \<Rightarrow> arg \<Rightarrow> error + int" where
  "arg_int env (AInt i) = Inr i"
| "arg_int env (AFloat f) = int_of_float f"
| "arg_int env (AStr s) =
     (case int_of_str env s of
        None \<Rightarrow> Inl (ValueError (''invalid literal for int() with base 10: '' @ s))
      | Some i \<Rightarrow> Inr i)"

definition arg_get :: "(string \<times> arg) list \<Rightarrow> string \<Rightarrow> arg \<Rightarrow> arg" where
  "arg_get args k d = (case map_of args k of None \<Rightarrow> d | Some a \<Rightarrow> a)"

text \<open>\<^verbatim>\<open>s.split(",")\<close>, \<^verbatim>\<open>s.replace(old, new)\<close> and \<^verbatim>\<open>sep.join(xs)\<close>.\<close>

fun split_on :: "char \<Rightarrow> string \<Rightarrow> string \<Rightarrow> string list" where
  "split_on d cur [] = [rev cur]"
| "split_on d cur (c # cs) =
     (if c = d then rev cur # split_on d [] cs else split_on d (c # cur) cs)"

definition split_comma :: "string \<Rightarrow> string list" where
  "split_comma s = split_on (CHR '','') [] s"

function replace :: "string \<Rightarrow> string \<Rightarrow> string \<Rightarrow> string" where
  "replace old new [] = []"
| "replace old new (c # cs) =
     (if old \<noteq> [] \<and> startswith (c # cs) old
      then new @ replace old new (drop (length old) (c # cs))
      else c # replace old new cs)"
  by pat_completeness auto
termination
  by (relation "measure (\<lambda>(old, new, s). length s)") (auto simp: Suc_le_eq)

fun join :: "string \<Rightarrow> string list \<Rightarrow> string" where
  "join sep [] = []"
| "join sep [x] = x"
| "join sep (x # y # ys) = x @ sep @ join sep (y # ys)"

subsection \<open>Coercions\<close>

text \<open>
  \<^verbatim>\<open>to_float\<close>: a number is converted (a boolean is an \<^verbatim>\<open>int\<close> to \<^verbatim>\<open>isinstance\<close>);
  an empty cell, a formula remnant and text that is no number give 0.0. The one
  exception left is the \<^verbatim>\<open>OverflowError\<close> of \<^verbatim>\<open>float\<close> on an integer out of range.
\<close>

fun to_float :: "env \<Rightarrow> pyval \<Rightarrow> error + pyfloat" where
  "to_float env (PInt i) = float_of_int i"
| "to_float env (PFloat r) = Inr (Finite r)"
| "to_float env (PBool b) = Inr (Finite (if b then 1 else 0))"
| "to_float env PNone = Inr (Finite 0)"
| "to_float env v =
     (if v = PStr [] then Inr (Finite 0)
      else
        (let txt = strip (py_str env v) in
         if startswith txt ''='' then Inr (Finite 0)
         else (case float_of_str env txt of None \<Rightarrow> Inr (Finite 0) | Some f \<Rightarrow> Inr f)))"

text \<open>\<^verbatim>\<open>parse_dt\<close>: a date-time as it is, nothing for a false value, else the three formats.\<close>

definition dt_formats :: "string list" where
  "dt_formats = [''%Y-%m-%d %H:%M'', ''%Y-%m-%dT%H:%M:%S'', ''%Y-%m-%d'']"

fun first_format :: "env \<Rightarrow> string \<Rightarrow> string list \<Rightarrow> int option" where
  "first_format env txt [] = None"
| "first_format env txt (fmt # fmts) =
     (case strptime env txt fmt of None \<Rightarrow> first_format env txt fmts | Some t \<Rightarrow> Some t)"

definition parse_dt :: "env \<Rightarrow> pyval \<Rightarrow> int option" where
  "parse_dt env v =
     (case v of
        PDateTime t \<Rightarrow> Some t
      | _ \<Rightarrow> if \<not> truthy v then None else first_format env (py_str env v) dt_formats)"

subsection \<open>Predicate library\<close>

definition row_key :: "string list \<Rightarrow> row \<Rightarrow> hitkey" where
  "row_key by r = map (row_get r) by"

text \<open>
  \<^verbatim>\<open>grouped.setdefault(key, []).append(x)\<close> on a dictionary kept as the list of its items
  in insertion order.
\<close>

fun group_append :: "(hitkey \<times> 'a list) list \<Rightarrow> hitkey \<Rightarrow> 'a \<Rightarrow> (hitkey \<times> 'a list) list" where
  "group_append [] k x = [(k, [x])]"
| "group_append ((k', xs) # g) k x =
     (if key_eq k' k then (k', xs @ [x]) # g else (k', xs) # group_append g k x)"

fun group_metric ::
  "env \<Rightarrow> string list \<Rightarrow> string \<Rightarrow> row list \<Rightarrow> (hitkey \<times> pyfloat list) list \<Rightarrow>
   error + (hitkey \<times> pyfloat list) list" where
  "group_metric env by metric [] grouped = Inr grouped"
| "group_metric env by metric (r # rs) grouped =
     (case to_float env (row_get r metric) of
        Inl e \<Rightarrow> Inl e
      | Inr x \<Rightarrow> group_metric env by metric rs (group_append grouped (row_key by r) x))"

text \<open>The slice \<^verbatim>\<open>xs[-n:]\<close> for an integer \<open>n\<close> of any sign.\<close>

definition last_slice :: "int \<Rightarrow> 'a list \<Rightarrow> 'a list" where
  "last_slice n xs = (if 0 < n then drop (length xs - nat n) xs else drop (nat (- n)) xs)"

text \<open>The streak loop of \<^verbatim>\<open>consecutive_below\<close> from a given streak; True is the \<^verbatim>\<open>break\<close>.\<close>

fun streak_hit :: "pyfloat \<Rightarrow> int \<Rightarrow> int \<Rightarrow> pyfloat list \<Rightarrow> bool" where
  "streak_hit threshold hours streak [] = False"
| "streak_hit threshold hours streak (v # vs) =
     (let s = (if flt_less v threshold then streak + 1 else 0)
      in if hours \<le> s then True else streak_hit threshold hours s vs)"

definition consecutive_below ::
  "env \<Rightarrow> row list \<Rightarrow> pyfloat \<Rightarrow> int \<Rightarrow> string list \<Rightarrow> string \<Rightarrow> error + hitkey list" where
  "consecutive_below env metric_series threshold consecutive_hours groupby metric =
     (case group_metric env groupby metric metric_series [] of
        Inl e \<Rightarrow> Inl e
      | Inr grouped \<Rightarrow>
          Inr (map fst (filter (\<lambda>(key, vals).
                 streak_hit threshold consecutive_hours 0 (last_slice (consecutive_hours * 2) vals))
               grouped)))"

text \<open>
  \<^verbatim>\<open>rolling_count\<close>. \<open>now\<close> is the clock reading the call takes. The subtraction
  \<^verbatim>\<open>now - timedelta(hours=w)\<close> raises \<^verbatim>\<open>OverflowError\<close> outside the range of dates.
\<close>

definition hours_before :: "int \<Rightarrow> int \<Rightarrow> error + int" where
  "hours_before now w =
     (let t = now - w * 3600000000 in if 0 \<le> t \<and> t \<le> dt_max then Inr t else Inl OverflowError)"

fun count_bump :: "(hitkey \<times> int) list \<Rightarrow> hitkey \<Rightarrow> (hitkey \<times> int) list" where
  "count_bump [] k = [(k, 1)]"
| "count_bump ((k', n) # cs) k =
     (if key_eq k' k then (k', n + 1) # cs else (k', n) # count_bump cs k)"

definition event_time :: "env \<Rightarrow> row \<Rightarrow> int option" where
  "event_time env e =
     parse_dt env (if truthy (row_get e ''StartDT'') then row_get e ''StartDT''
                   else row_get e ''HourEndingDT'')"

fun count_events ::
  "env \<Rightarrow> int \<Rightarrow> string list \<Rightarrow> row list \<Rightarrow> (hitkey \<times> int) list \<Rightarrow> (hitkey \<times> int) list" where
  "count_events env cutoff by [] counts = counts"
| "count_events env cutoff by (e # es) counts =
     count_events env cutoff by es
       (case event_time env e of
          None \<Rightarrow> counts
        | Some t \<Rightarrow> if cutoff \<le> t then count_bump counts (row_key by e) else counts)"

definition rolling_count ::
  "env \<Rightarrow> int \<Rightarrow> row list \<Rightarrow> int \<Rightarrow> string list \<Rightarrow> error + (hitkey \<times> int) list" where
  "rolling_count env now events window_hours by =
     (case hours_before now window_hours of
        Inl e \<Rightarrow> Inl e
      | Inr cutoff \<Rightarrow> Inr (count_events env cutoff by events []))"

definition repeats_same_value ::
  "env \<Rightarrow> int \<Rightarrow> row list \<Rightarrow> string \<Rightarrow> int \<Rightarrow> int \<Rightarrow> string list \<Rightarrow> error + hitkey list" where
  "repeats_same_value env now rows field min_repeats window_hours by =
     (case rolling_count env now rows window_hours (by @ [field]) of
        Inl e \<Rightarrow> Inl e
      | Inr recent \<Rightarrow> Inr (map fst (filter (\<lambda>(k, c). min_repeats \<le> c) recent)))"

text \<open>
  Float arithmetic of the forecast: exact on finite values up to the overflow to an
  infinity, with the IEEE rules for infinities and NaN. The divisor is never zero where
  \<open>flt_div\<close> is used (a count of at least 1, and a planned total found positive).
\<close>

fun flt_neg :: "pyfloat \<Rightarrow> pyfloat" where
  "flt_neg (Finite a) = Finite (- a)"
| "flt_neg PosInf = NegInf"
| "flt_neg NegInf = PosInf"
| "flt_neg NaN = NaN"

fun flt_add :: "pyfloat \<Rightarrow> pyfloat \<Rightarrow> pyfloat" where
  "flt_add (Finite a) (Finite b) = round_float (a + b)"
| "flt_add NaN _ = NaN"
| "flt_add _ NaN = NaN"
| "flt_add PosInf NegInf = NaN"
| "flt_add NegInf PosInf = NaN"
| "flt_add (Finite a) b = b"
| "flt_add a _ = a"

definition flt_sub :: "pyfloat \<Rightarrow> pyfloat \<Rightarrow> pyfloat" where
  "flt_sub a b = flt_add a (flt_neg b)"

fun flt_sign :: "pyfloat \<Rightarrow> int" where
  "flt_sign (Finite a) = (if a < 0 then - 1 else if a = 0 then 0 else 1)"
| "flt_sign PosInf = 1"
| "flt_sign NegInf = - 1"
| "flt_sign NaN = 0"

fun flt_mul :: "pyfloat \<Rightarrow> pyfloat \<Rightarrow> pyfloat" where
  "flt_mul (Finite a) (Finite b) = round_float (a * b)"
| "flt_mul NaN _ = NaN"
| "flt_mul _ NaN = NaN"
| "flt_mul a b =
     (let s = flt_sign a * flt_sign b in if s = 0 then NaN else if 0 < s then PosInf else NegInf)"

fun flt_div :: "pyfloat \<Rightarrow> pyfloat \<Rightarrow> pyfloat" where
  "flt_div (Finite a) (Finite b) = (if b = 0 then NaN else round_float (a / b))"
| "flt_div NaN _ = NaN"
| "flt_div _ NaN = NaN"
| "flt_div (Finite a) _ = Finite 0"
| "flt_div a (Finite b) = (if 0 \<le> b then a else flt_neg a)"
| "flt_div _ _ = NaN"

definition flt_sum :: "pyfloat list \<Rightarrow> pyfloat" where
  "flt_sum xs = foldl flt_add (Finite 0) xs"

definition forecast_shortfall :: "pyfloat \<Rightarrow> pyfloat \<Rightarrow> pyfloat \<Rightarrow> bool" where
  "forecast_shortfall planned forecast pct_threshold =
     (if flt_le planned (Finite 0) then False
      else flt_le pct_threshold (flt_div (flt_sub planned forecast) planned))"

definition missing_standard :: "pyval \<Rightarrow> pyval \<Rightarrow> hitkey list \<Rightarrow> bool" where
  "missing_standard line sku standards = (\<not> key_mem [line, sku] standards)"

text \<open>
  \<^verbatim>\<open>schedule_overlap\<close>: the slots of a line, sorted (stably) by start time with
  \<^verbatim>\<open>datetime.min\<close> for a missing start, overlap when a start lies before the end of the
  slot just before it.
\<close>

fun adjacent_overlap :: "(int option \<times> int option) list \<Rightarrow> bool" where
  "adjacent_overlap (a # b # rest) =
     ((case (snd a, fst b) of (Some en, Some st) \<Rightarrow> st < en | _ \<Rightarrow> False)
      \<or> adjacent_overlap (b # rest))"
| "adjacent_overlap _ = False"

definition schedule_overlap :: "env \<Rightarrow> row list \<Rightarrow> pyval \<Rightarrow> bool" where
  "schedule_overlap env schedule_rows line =
     adjacent_overlap
       (sort_key (\<lambda>x. case fst x of None \<Rightarrow> 0 | Some t \<Rightarrow> t)
          (map (\<lambda>r. (parse_dt env (row_get r ''StartDT''), parse_dt env (row_get r ''EndDT'')))
             (filter (\<lambda>r. py_eq (row_get r ''Line'') line) schedule_rows)))"

subsection \<open>Rule evaluator\<close>

record tables =
  schedule_rows :: "row list"
  hourly_rows :: "row list"
  downtime_rows :: "row list"
  standards_rows :: "row list"

record trigger =
  rule_id :: pyval
  severity :: pyval
  trigger :: string
  evidence :: string
  recommendation :: string
  scope :: pyval
  affected_entity :: string
  timestamp :: string
  impact :: rat

definition standards_of :: "row list \<Rightarrow> hitkey list" where
  "standards_of rows = key_set (map (\<lambda>r. [row_get r ''Line'', row_get r ''SKU'']) rows)"

text \<open>The six branches of the dispatch, each giving the hit-set of one call.\<close>

definition consec_below_hits :: "env \<Rightarrow> tables \<Rightarrow> (string \<times> arg) list \<Rightarrow> error + hitkey list" where
  "consec_below_hits env tb args =
     (let group = split_comma (arg_str env (arg_get args ''groupby'' (AStr ''Line''))) in
      case arg_float env (arg_get args ''threshold'' (AFloat (Finite (7 / 10)))) of
        Inl e \<Rightarrow> Inl e
      | Inr threshold \<Rightarrow>
          (case arg_int env (arg_get args ''hours'' (AInt 2)) of
             Inl e \<Rightarrow> Inl e
           | Inr hours \<Rightarrow>
               (case consecutive_below env (hourly_rows tb) threshold hours group
                       (arg_str env (arg_get args ''metric'' (AStr ''TargetAttain''))) of
                  Inl e \<Rightarrow> Inl e
                | Inr hits \<Rightarrow> Inr (key_set hits))))"

text \<open>
  In \<^verbatim>\<open>ROLLING_COUNT\<close> the bound \<^verbatim>\<open>int(args.get("min", 1))\<close> stands inside the set
  comprehension: it is evaluated once per counted group, so not at all when nothing was
  counted.
\<close>

definition rolling_count_hits ::
  "env \<Rightarrow> tables \<Rightarrow> int \<Rightarrow> (string \<times> arg) list \<Rightarrow> error + hitkey list" where
  "rolling_count_hits env tb now args =
     (let group = filter (\<lambda>g. g \<noteq> [])
            (split_comma (replace ''={Line}'' [] (arg_str env (arg_get args ''where'' (AStr ''Line={Line}'')))))
      in
      case arg_int env (arg_get args ''window_hours'' (AInt 2)) of
        Inl e \<Rightarrow> Inl e
      | Inr window_hours \<Rightarrow>
          (case rolling_count env now (downtime_rows tb) window_hours
                  (if group = [] then [''Line''] else group) of
             Inl e \<Rightarrow> Inl e
           | Inr counts \<Rightarrow>
               if counts = [] then Inr []
               else
                 (case arg_int env (arg_get args ''min'' (AInt 1)) of
                    Inl e \<Rightarrow> Inl e
                  | Inr m \<Rightarrow> Inr (key_set (map fst (filter (\<lambda>(k, v). m \<le> v) counts))))))"

definition missing_standard_hits :: "tables \<Rightarrow> hitkey list" where
  "missing_standard_hits tb =
     key_set (map (\<lambda>r. [row_get r ''Line'', row_get r ''SKU_Resolved''])
       (filter (\<lambda>r. missing_standard (row_get r ''Line'') (row_get r ''SKU_Resolved'')
                      (standards_of (standards_rows tb)))
          (hourly_rows tb)))"

definition schedule_overlap_hits :: "env \<Rightarrow> tables \<Rightarrow> hitkey list" where
  "schedule_overlap_hits env tb =
     (let lines = key_set (map (\<lambda>r. [row_get r ''Line'']) (schedule_rows tb))
      in filter (\<lambda>l. schedule_overlap env (schedule_rows tb) (hd l)) lines)"

definition repeat_cause_hits ::
  "env \<Rightarrow> tables \<Rightarrow> int \<Rightarrow> (string \<times> arg) list \<Rightarrow> error + hitkey list" where
  "repeat_cause_hits env tb now args =
     (let group = split_comma (arg_str env (arg_get args ''groupby'' (AStr ''Line,Machine,Cause''))) in
      case arg_int env (arg_get args ''min_repeats'' (AInt 3)) of
        Inl e \<Rightarrow> Inl e
      | Inr min_repeats \<Rightarrow>
          (case arg_int env (arg_get args ''window_hours'' (AInt 12)) of
             Inl e \<Rightarrow> Inl e
           | Inr window_hours \<Rightarrow>
               (case repeats_same_value env now (downtime_rows tb) ''Cause'' min_repeats
                       window_hours (butlast group) of
                  Inl e \<Rightarrow> Inl e
                | Inr hits \<Rightarrow> Inr (key_set hits))))"

text \<open>
  \<^verbatim>\<open>FORECAST_SHORTFALL\<close>: the actual cases of each line, the planned cases of each line
  (a sum that starts at the integer 0), and the test of each line that has samples. The
  threshold \<^verbatim>\<open>float(args.get("pct", 0.1))\<close> is evaluated inside the loop over the lines.
\<close>

fun group_actuals :: "env \<Rightarrow> row list \<Rightarrow> (hitkey \<times> pyfloat list) list \<Rightarrow>
   error + (hitkey \<times> pyfloat list) list" where
  "group_actuals env [] by_line = Inr by_line"
| "group_actuals env (r # rs) by_line =
     (case to_float env (row_get r ''ActualCases'') of
        Inl e \<Rightarrow> Inl e
      | Inr x \<Rightarrow> group_actuals env rs (group_append by_line [row_get r ''Line''] x))"

fun planned_add :: "(hitkey \<times> pyfloat) list \<Rightarrow> hitkey \<Rightarrow> pyfloat \<Rightarrow> (hitkey \<times> pyfloat) list" where
  "planned_add [] k x = [(k, flt_add (Finite 0) x)]"
| "planned_add ((k', p) # ps) k x =
     (if key_eq k' k then (k', flt_add p x) # ps else (k', p) # planned_add ps k x)"

fun sum_planned :: "env \<Rightarrow> row list \<Rightarrow> (hitkey \<times> pyfloat) list \<Rightarrow>
   error + (hitkey \<times> pyfloat) list" where
  "sum_planned env [] planned = Inr planned"
| "sum_planned env (r # rs) planned =
     (case to_float env (row_get r ''PlannedCases'') of
        Inl e \<Rightarrow> Inl e
      | Inr x \<Rightarrow> sum_planned env rs (planned_add planned [row_get r ''Line''] x))"

definition planned_of :: "(hitkey \<times> pyfloat) list \<Rightarrow> hitkey \<Rightarrow> pyfloat" where
  "planned_of planned k =
     (case filter (\<lambda>(k', p). key_eq k' k) planned of [] \<Rightarrow> Finite 0 | (k', p) # _ \<Rightarrow> p)"

definition line_forecast :: "pyfloat list \<Rightarrow> pyfloat" where
  "line_forecast vals =
     (let rolling = flt_div (flt_sum (last_slice 3 vals))
                      (Finite (of_nat (max (min 3 (length vals)) 1)))
      in flt_add (flt_sum vals) (flt_mul rolling (Finite 2)))"

definition forecast_shortfall_hits :: "env \<Rightarrow> tables \<Rightarrow> (string \<times> arg) list \<Rightarrow> error + hitkey list" where
  "forecast_shortfall_hits env tb args =
     (case group_actuals env (hourly_rows tb) [] of
        Inl e \<Rightarrow> Inl e
      | Inr by_line \<Rightarrow>
          (case sum_planned env (schedule_rows tb) [] of
             Inl e \<Rightarrow> Inl e
           | Inr planned \<Rightarrow>
               if by_line = [] then Inr []
               else
                 (case arg_float env (arg_get args ''pct'' (AFloat (Finite (1 / 10)))) of
                    Inl e \<Rightarrow> Inl e
                  | Inr pct \<Rightarrow>
                      Inr (key_set (map fst (filter (\<lambda>(line, vals).
                             forecast_shortfall (planned_of planned line) (line_forecast vals) pct)
                           by_line))))))"

text \<open>
  One call of a condition, when \<open>k\<close> clock readings have been taken: its hit-set, or
  \<open>None\<close> for a name that no branch of the \<^verbatim>\<open>if\<close>/\<^verbatim>\<open>elif\<close> chain treats, and the
  number of readings taken after it (\<^verbatim>\<open>rolling_count\<close> reads the clock once).
\<close>

definition recognized :: "string \<Rightarrow> bool" where
  "recognized fn = (fn \<in> set [''CONSEC_BELOW'', ''ROLLING_COUNT'', ''MISSING_STANDARD'',
                              ''SCHEDULE_OVERLAP'', ''REPEAT_CAUSE'', ''FORECAST_SHORTFALL''])"

definition with_clock :: "nat \<Rightarrow> error + hitkey list \<Rightarrow> error + (hitkey list option \<times> nat)" where
  "with_clock k r = (case r of Inl e \<Rightarrow> Inl e | Inr hits \<Rightarrow> Inr (Some hits, k))"

definition eval_call ::
  "env \<Rightarrow> clock \<Rightarrow> tables \<Rightarrow> nat \<Rightarrow> call \<Rightarrow> error + (hitkey list option \<times> nat)" where
  "eval_call env clk tb k c =
     (let fn = fst c; args = snd c in
      if fn = ''CONSEC_BELOW'' then with_clock k (consec_below_hits env tb args)
      else if fn = ''ROLLING_COUNT'' then with_clock (Suc k) (rolling_count_hits env tb (clk k) args)
      else if fn = ''MISSING_STANDARD'' then with_clock k (Inr (missing_standard_hits tb))
      else if fn = ''SCHEDULE_OVERLAP'' then with_clock k (Inr (schedule_overlap_hits env tb))
      else if fn = ''REPEAT_CAUSE'' then with_clock (Suc k) (repeat_cause_hits env tb (clk k) args)
      else if fn = ''FORECAST_SHORTFALL'' then with_clock k (forecast_shortfall_hits env tb args)
      else Inr (None, k))"

text \<open>The loop over the calls of one rule: \<^verbatim>\<open>rule_hits\<close>, in the order of the calls.\<close>

fun rule_hit_sets ::
  "env \<Rightarrow> clock \<Rightarrow> tables \<Rightarrow> nat \<Rightarrow> call list \<Rightarrow> error + (hitkey list list \<times> nat)" where
  "rule_hit_sets env clk tb k [] = Inr ([], k)"
| "rule_hit_sets env clk tb k (c # cs) =
     (case eval_call env clk tb k c of
        Inl e \<Rightarrow> Inl e
      | Inr (h, k1) \<Rightarrow>
          (case rule_hit_sets env clk tb k1 cs of
             Inl e \<Rightarrow> Inl e
           | Inr (hs, k2) \<Rightarrow> Inr ((case h of None \<Rightarrow> hs | Some x \<Rightarrow> x # hs), k2)))"

text \<open>
  \<^verbatim>\<open>set.intersection(*rule_hits) if len(rule_hits) > 1 else set(rule_hits[0])\<close>, for a
  list that is not empty (the evaluator skips the rule otherwise). Of two keys that are
  equal with different representations, such as \<^verbatim>\<open>(1,)\<close> and \<^verbatim>\<open>(1.0,)\<close>, the model
  keeps that of the first hit-set; the order of iteration is left to \<open>set_order\<close>.
\<close>

definition final_hits :: "hitkey list list \<Rightarrow> hitkey list" where
  "final_hits hs =
     (case hs of
        [] \<Rightarrow> []
      | h # rest \<Rightarrow> if rest = [] then h else filter (\<lambda>x. list_all (key_mem x) rest) h)"

definition entity_of :: "env \<Rightarrow> hitkey \<Rightarrow> string" where
  "entity_of env h = join '','' (map (py_str env) (filter (\<lambda>x. x \<noteq> PNone \<and> x \<noteq> PStr []) h))"

definition mk_trigger :: "env \<Rightarrow> row \<Rightarrow> hitkey \<Rightarrow> int \<Rightarrow> trigger" where
  "mk_trigger env rule h now =
     (let entity = entity_of env h in
      \<lparr>rule_id = get_default rule ''RuleID'' (PStr []),
       severity = get_default rule ''Severity'' (PStr ''Info''),
       trigger = py_str env (get_default rule ''Description'' (PStr [])),
       evidence = py_str env (get_default rule ''IfLogic'' (PStr [])),
       recommendation =
         sanitize_recommendation (py_str env (get_default rule ''ThenRecommendation'' (PStr []))),
       scope = get_default rule ''Scope'' (PStr ''Line''),
       affected_entity = (if entity = [] then ''Unknown'' else entity),
       timestamp = isoformat env now,
       impact = of_nat (length entity)\<rparr>)"

text \<open>The loop over the surviving keys: every trigger reads the clock for itself.\<close>

fun emit :: "env \<Rightarrow> clock \<Rightarrow> row \<Rightarrow> nat \<Rightarrow> hitkey list \<Rightarrow> trigger list \<times> nat" where
  "emit env clk rule k [] = ([], k)"
| "emit env clk rule k (h # hs) =
     (let (ts, k') = emit env clk rule (Suc k) hs in (mk_trigger env rule h (clk k) # ts, k'))"

definition enabled :: "env \<Rightarrow> row \<Rightarrow> bool" where
  "enabled env rule = (upper (py_str env (get_default rule ''Enabled'' (PStr []))) = ''TRUE'')"

definition eval_rule ::
  "env \<Rightarrow> clock \<Rightarrow> tables \<Rightarrow> nat \<Rightarrow> row \<Rightarrow> error + (trigger list \<times> nat)" where
  "eval_rule env clk tb k rule =
     (if \<not> enabled env rule then Inr ([], k)
      else
        (case parse_iflogic (py_str env (get_default rule ''IfLogic'' (PStr []))) of
           Inl e \<Rightarrow> Inl e
         | Inr parsed \<Rightarrow>
             (case rule_hit_sets env clk tb k parsed of
                Inl e \<Rightarrow> Inl e
              | Inr (rule_hits, k1) \<Rightarrow>
                  if rule_hits = [] then Inr ([], k1)
                  else Inr (emit env clk rule k1 (set_order env (final_hits rule_hits))))))"

fun run_rules ::
  "env \<Rightarrow> clock \<Rightarrow> tables \<Rightarrow> nat \<Rightarrow> row list \<Rightarrow> error + (trigger list \<times> nat)" where
  "run_rules env clk tb k [] = Inr ([], k)"
| "run_rules env clk tb k (rule # rules) =
     (case eval_rule env clk tb k rule of
        Inl e \<Rightarrow> Inl e
      | Inr (ts, k1) \<Rightarrow>
          (case run_rules env clk tb k1 rules of
             Inl e \<Rightarrow> Inl e
           | Inr (ts', k2) \<Rightarrow> Inr (ts @ ts', k2)))"

subsection \<open>Trigger ranker\<close>

definition severity_rank :: "pyval \<Rightarrow> int" where
  "severity_rank v =
     (if v = PStr ''Urgent'' then 4 else if v = PStr ''Action'' then 3
      else if v = PStr ''Watch'' then 2 else if v = PStr ''Info'' then 1 else 0)"

text \<open>
  The sort key \<^verbatim>\<open>(-SEVERITY_ORDER.get(t.severity, 0), -t.impact, t.timestamp)\<close>; tuples
  compare lexicographically, text by code points; \<^verbatim>\<open>list.sort\<close> is stable.
\<close>

definition sort_key_of :: "trigger \<Rightarrow> int \<times> rat \<times> string" where
  "sort_key_of t = (- severity_rank (severity t), - impact t, timestamp t)"

definition rank_triggers :: "trigger list \<Rightarrow> trigger list" where
  "rank_triggers ts = sort_key sort_key_of ts"

definition evaluate_rules ::
  "env \<Rightarrow> clock \<Rightarrow> row list \<Rightarrow> row list \<Rightarrow> row list \<Rightarrow> row list \<Rightarrow> row list \<Rightarrow>
   error + trigger list" where
  "evaluate_rules env clk rules schedule hourly downtime standards =
     (case run_rules env clk
             \<lparr>schedule_rows = schedule, hourly_rows = hourly,
              downtime_rows = downtime, standards_rows = standards\<rparr> 0 rules of
        Inl e \<Rightarrow> Inl e
      | Inr (ts, k) \<Rightarrow> Inr (rank_triggers ts))"

text \<open>
  The order the ranker is meant to produce, spelt out: a higher severity rank first, then
  a higher impact, then an earlier timestamp.
\<close>

definition ranks_before :: "trigger \<Rightarrow> trigger \<Rightarrow> bool" where
  "ranks_before t u =
     (severity_rank (severity u) < severity_rank (severity t) \<or>
      (severity_rank (severity t) = severity_rank (severity u) \<and>
       (impact u < impact t \<or> (impact t = impact u \<and> timestamp t \<le> timestamp u))))"

subsection \<open>Concrete inputs\<close>

text \<open>
  A library stand-in in which no text is a date or a number, a date-time is written as
  its number of whole seconds, and a set is iterated in the order of insertion; and two
  clocks that start at noon of 1 January 2024: one that stands still and one that
  advances by a second at every reading.
\<close>

definition plain_env :: env where
  "plain_env =
     \<lparr>strptime = (\<lambda>txt fmt. None), float_of_str = (\<lambda>txt. None), int_of_str = (\<lambda>txt. None),
      str_of_float = (\<lambda>f. ''float''), str_of_datetime = (\<lambda>t. str_of_int t),
      isoformat = (\<lambda>t. str_of_int (t div 1000000)), set_order = (\<lambda>ks. ks)\<rparr>"

definition noon :: int where
  "noon = 63839707200000000"

definition still_clock :: clock where
  "still_clock i = noon"

definition ticking_clock :: clock where
  "ticking_clock i = noon + int i * 1000000"



text \<open>Four hourly samples of one line with the attainment values 0.9, 0.6, 0.6, 0.9.\<close>

definition line1_samples :: "row list" where
  "line1_samples =
     map (\<lambda>v. [(''Line'', PStr ''Line 1''), (''TargetAttain'', PFloat v)])
       [9 / 10, 6 / 10, 6 / 10, 9 / 10]"

text \<open>Two hourly samples without a standard, and the one standard there is.\<close>

definition hourly_demo :: "row list" where
  "hourly_demo =
     [[(''Line'', PStr ''Line 1''), (''SKU_Resolved'', PStr ''SKU-002'')],
      [(''Line'', PStr ''Line 2''), (''SKU_Resolved'', PNone)]]"

definition standards_demo :: "row list" where
  "standards_demo = [[(''Line'', PStr ''Line 1''), (''SKU'', PStr ''SKU-001'')]]"

text \<open>The second default rule of the repository, and an enabled rule with a malformed condition.\<close>

definition rule_missing_standard :: row where
  "rule_missing_standard =
     [(''RuleID'', PStr ''R2_MISSING_STANDARD''), (''Enabled'', PStr ''TRUE''),
      (''Severity'', PStr ''Urgent''), (''Scope'', PStr ''Line''),
      (''Description'', PStr ''Standards missing for active run''),
      (''IfLogic'', PStr ''MISSING_STANDARD()''),
      (''ThenRecommendation'', PStr ''Add standard immediately.'')]"

definition rule_malformed :: row where
  "rule_malformed =
     [(''RuleID'', PStr ''R0_MALFORMED''), (''Enabled'', PStr ''TRUE''),
      (''Severity'', PStr ''Watch''), (''IfLogic'', PStr ''missing standard'')]"

text \<open>
  A rule in the manner of the first default rule of the repository (a streak below the
  target and frequent stops, the other arguments at their defaults), the same rule
  without its second call, and a rule whose calls have names that the evaluator does not
  know. Eight downtime events, four on each of two lines, half an hour before noon.
\<close>

definition rule_underperform_stops :: row where
  "rule_underperform_stops =
     [(''RuleID'', PStr ''R1_UNDERPERFORM_STOPS''), (''Enabled'', PStr ''TRUE''),
      (''Severity'', PStr ''Action''), (''Scope'', PStr ''Line''),
      (''Description'', PStr ''Sustained underperformance with frequent stops''),
      (''IfLogic'', PStr ''CONSEC_BELOW(hours=2) AND ROLLING_COUNT(min=4)''),
      (''ThenRecommendation'', PStr ''Run rapid loss review.'')]"


definition rule_unknown_calls :: row where
  "rule_unknown_calls =
     [(''RuleID'', PStr ''R9_UNKNOWN''), (''Enabled'', PStr ''TRUE''),
      (''Severity'', PStr ''Info''), (''IfLogic'', PStr ''FOO() AND BAR(x=1)'')]"

definition downtime_demo :: "row list" where
  "downtime_demo =
     map (\<lambda>l. [(''Line'', PStr l), (''StartDT'', PDateTime (noon - 1800000000))])
       [''Line 1'', ''Line 2'', ''Line 1'', ''Line 2'', ''Line 1'', ''Line 2'', ''Line 1'', ''Line 2'']"

definition demo_tables :: tables where
  "demo_tables =
     \<lparr>schedule_rows = [], hourly_rows = line1_samples,
      downtime_rows = downtime_demo, standards_rows = []\<rparr>"

subsection \<open>Notions of the specification\<close>

text \<open>
  A hit-set as the set it stands for: its keys up to Python's equality.
\<close>

definition keyset :: "hitkey list \<Rightarrow> hitkey set" where
  "keyset ks = map canon ` set ks"

text \<open>
  The samples of the group of a key, in arrival order; the most recent \<open>n\<close> of a
  sequence; the length of the run of values below the threshold that ends a sequence;
  and "a trailing run reaches \<open>hours\<close>": at some point of the scan of the window, the
  run that ends there is at least \<open>hours\<close> long.
\<close>

definition samples_of ::
  "env \<Rightarrow> string list \<Rightarrow> string \<Rightarrow> row list \<Rightarrow> hitkey \<Rightarrow> (error + pyfloat) list" where
  "samples_of env by metric rows k =
     map (\<lambda>r. to_float env (row_get r metric)) (filter (\<lambda>r. key_eq (row_key by r) k) rows)"

definition most_recent :: "nat \<Rightarrow> 'a list \<Rightarrow> 'a list" where
  "most_recent n xs = drop (length xs - n) xs"

definition trailing_run :: "pyfloat \<Rightarrow> pyfloat list \<Rightarrow> nat" where
  "trailing_run threshold ys = length (takeWhile (\<lambda>v. flt_less v threshold) (rev ys))"

definition run_reaches :: "pyfloat \<Rightarrow> int \<Rightarrow> pyfloat list \<Rightarrow> bool" where
  "run_reaches threshold hours w =
     list_ex (\<lambda>n. hours \<le> int (trailing_run threshold (take n w))) [0..<Suc (length w)]"


subsection \<open>Notions of the proofs\<close>

text \<open>
  The streak after a scan, the values a grouping dictionary holds for a key, and the
  invariant of such a dictionary: one entry for a key, and no entry without values.
\<close>

definition streak_after :: "pyfloat \<Rightarrow> int \<Rightarrow> pyfloat list \<Rightarrow> int" where
  "streak_after threshold s ys = foldl (\<lambda>s v. if flt_less v threshold then s + 1 else 0) s ys"

definition group_vals :: "(hitkey \<times> 'a list) list \<Rightarrow> hitkey \<Rightarrow> 'a list" where
  "group_vals g k = (case find (\<lambda>p. key_eq (fst p) k) g of None \<Rightarrow> [] | Some p \<Rightarrow> snd p)"

definition group_inv :: "(hitkey \<times> 'a list) list \<Rightarrow> bool" where
  "group_inv g = (distinct (map (\<lambda>p. map canon (fst p)) g) \<and> list_all (\<lambda>p. snd p \<noteq> []) g)"

section \<open>Properties\<close>

subsection \<open>Sanitizer\<close>

lemma fallback_is_clean:
  "\<not> list_ex (\<lambda>b. contains (lower coaching_fallback) b) banned"
  by code_simp

text \<open>
  Claim C10. The sanitizer is idempotent: a text that holds a denylisted term is replaced
  by the coaching fallback, which holds none of them and is therefore returned unchanged
  by a second pass; any other text is returned unchanged by both passes.
\<close>

theorem sanitize_recommendation_idempotent:
  "sanitize_recommendation (sanitize_recommendation text) = sanitize_recommendation text"
proof (cases "list_ex (\<lambda>b. contains (lower text) b) banned")
  case True
  then have "sanitize_recommendation text = coaching_fallback"
    by (simp add: sanitize_recommendation_def)
  moreover have "sanitize_recommendation coaching_fallback = coaching_fallback"
    using fallback_is_clean by (simp add: sanitize_recommendation_def)
  ultimately show ?thesis by simp
next
  case False
  then show ?thesis by (simp add: sanitize_recommendation_def)
qed

subsection \<open>Parser\<close>






subsection \<open>Ranker\<close>

lemma key_le_ranks_before: "sort_key_of t \<le> sort_key_of u \<Longrightarrow> ranks_before t u"
  by (auto simp: sort_key_of_def ranks_before_def less_eq_prod_def)

lemma ranks_before_trans: "ranks_before t u \<Longrightarrow> ranks_before u v \<Longrightarrow> ranks_before t v"
  by (auto simp: ranks_before_def)

lemma rank_triggers_stable:
  "filter (\<lambda>t. sort_key_of t = k) (rank_triggers ts) = filter (\<lambda>t. sort_key_of t = k) ts"
  by (simp add: rank_triggers_def sort_key_stable)

lemma rank_triggers_sorted: "sorted_wrt ranks_before (rank_triggers ts)"
proof -
  have "sorted (map sort_key_of (rank_triggers ts))"
    by (simp add: rank_triggers_def)
  then have "sorted_wrt (\<lambda>t u. sort_key_of t \<le> sort_key_of u) (rank_triggers ts)"
    by (simp add: sorted_map)
  then show ?thesis
    by (rule sorted_wrt_mono_rel [rotated]) (simp add: key_le_ranks_before)
qed

text \<open>
  Claim C3. The ranked list holds the same triggers and is ordered by \<open>ranks_before\<close>:
  severity rank descending (Urgent 4, Action 3, Watch 2, Info 1, anything else 0), then
  impact descending, then timestamp ascending; any two triggers are comparable. Three
  triggers that differ only in their severities Watch, Urgent, Action come out as Urgent,
  Action, Watch.
\<close>

theorem rank_triggers_order:
  "sorted_wrt ranks_before (rank_triggers ts) \<and>
   mset (rank_triggers ts) = mset ts \<and>
   (ranks_before t u \<or> ranks_before u t) \<and>
   severity_rank (PStr ''Urgent'') = 4 \<and> severity_rank (PStr ''Action'') = 3 \<and>
   severity_rank (PStr ''Watch'') = 2 \<and> severity_rank (PStr ''Info'') = 1 \<and>
   (severity_rank v = 0 \<or>
    v \<in> set [PStr ''Urgent'', PStr ''Action'', PStr ''Watch'', PStr ''Info'']) \<and>
   rank_triggers [t\<lparr>severity := PStr ''Watch''\<rparr>, t\<lparr>severity := PStr ''Urgent''\<rparr>,
                  t\<lparr>severity := PStr ''Action''\<rparr>] =
     [t\<lparr>severity := PStr ''Urgent''\<rparr>, t\<lparr>severity := PStr ''Action''\<rparr>,
      t\<lparr>severity := PStr ''Watch''\<rparr>]"
proof -
  have "ranks_before t u \<or> ranks_before u t"
    by (auto simp: ranks_before_def)
  moreover have "mset (rank_triggers ts) = mset ts"
    by (simp add: rank_triggers_def)
  moreover have
    "rank_triggers [t\<lparr>severity := PStr ''Watch''\<rparr>, t\<lparr>severity := PStr ''Urgent''\<rparr>,
                    t\<lparr>severity := PStr ''Action''\<rparr>] =
       [t\<lparr>severity := PStr ''Urgent''\<rparr>, t\<lparr>severity := PStr ''Action''\<rparr>,
        t\<lparr>severity := PStr ''Watch''\<rparr>]"
    by (simp add: rank_triggers_def sort_key_of_def severity_rank_def less_eq_prod_def)
  ultimately show ?thesis
    using rank_triggers_sorted [of ts] by (simp add: severity_rank_def)
qed

subsection \<open>Consecutive samples below a threshold\<close>

lemma streak_after_Cons:
  "streak_after thr s (v # vs) = streak_after thr (if flt_less v thr then s + 1 else 0) vs"
  by (simp add: streak_after_def)

lemma streak_hit_iff:
  "streak_hit thr h s w \<longleftrightarrow> (\<exists>n. 0 < n \<and> n \<le> length w \<and> h \<le> streak_after thr s (take n w))"
proof (induction w arbitrary: s)
  case Nil
  show ?case by simp
next
  case (Cons v vs)
  let ?s = "if flt_less v thr then s + 1 else 0"
  have "(\<exists>n. 0 < n \<and> n \<le> length (v # vs) \<and> h \<le> streak_after thr s (take n (v # vs))) \<longleftrightarrow>
        h \<le> ?s \<or> (\<exists>m. 0 < m \<and> m \<le> length vs \<and> h \<le> streak_after thr ?s (take m vs))"
    (is "?L \<longleftrightarrow> ?A \<or> ?B")
  proof
    assume ?L
    then obtain n where n: "0 < n" "n \<le> length (v # vs)"
      "h \<le> streak_after thr s (take n (v # vs))" by blast
    then obtain m where m: "n = Suc m" by (cases n) auto
    show "?A \<or> ?B"
    proof (cases m)
      case 0
      with n m show ?thesis by (simp add: streak_after_def)
    next
      case (Suc j)
      with n m have "0 < m \<and> m \<le> length vs \<and> h \<le> streak_after thr ?s (take m vs)"
        by (simp add: streak_after_Cons)
      then show ?thesis by blast
    qed
  next
    assume "?A \<or> ?B"
    then show ?L
    proof
      assume ?A
      then have "0 < Suc 0 \<and> Suc 0 \<le> length (v # vs) \<and>
                 h \<le> streak_after thr s (take (Suc 0) (v # vs))"
        by (simp add: streak_after_def)
      then show ?L by blast
    next
      assume ?B
      then obtain m where "0 < m" "m \<le> length vs" "h \<le> streak_after thr ?s (take m vs)"
        by blast
      then have "0 < Suc m \<and> Suc m \<le> length (v # vs) \<and>
                 h \<le> streak_after thr s (take (Suc m) (v # vs))"
        by (simp add: streak_after_Cons)
      then show ?L by blast
    qed
  qed
  then show ?case by (simp add: Cons.IH Let_def)
qed

lemma streak_after_zero: "streak_after thr 0 ys = int (trailing_run thr ys)"
proof (induction ys rule: rev_induct)
  case Nil
  show ?case by (simp add: streak_after_def trailing_run_def)
next
  case (snoc v ys)
  have "streak_after thr 0 (ys @ [v]) =
          (if flt_less v thr then streak_after thr 0 ys + 1 else 0)"
    by (simp add: streak_after_def)
  then show ?case using snoc.IH by (simp add: trailing_run_def)
qed

lemma run_reaches_iff:
  "run_reaches thr h w \<longleftrightarrow> (\<exists>n\<le>length w. h \<le> int (trailing_run thr (take n w)))"
proof -
  have s: "set [0..<Suc (length w)] = {n. n \<le> length w}" by auto
  show ?thesis unfolding run_reaches_def list_ex_iff s by auto
qed

lemma streak_hit_window:
  assumes "0 \<le> h" and "vals \<noteq> []"
  shows "streak_hit thr h 0 (last_slice (h * 2) vals) \<longleftrightarrow>
         run_reaches thr h (most_recent (nat (2 * h)) vals)"
proof (cases "h = 0")
  case True
  have "last_slice 0 vals = vals" by (simp add: last_slice_def)
  moreover have "streak_hit thr 0 0 vals"
    using assms(2) by (cases vals) (simp_all add: Let_def)
  moreover have "run_reaches thr 0 (most_recent 0 vals)"
    unfolding run_reaches_iff by (intro exI [of _ 0]) simp
  ultimately show ?thesis using True by simp
next
  case False
  with assms(1) have pos: "0 < h" by simp
  then have w: "last_slice (h * 2) vals = most_recent (nat (2 * h)) vals"
    by (simp add: last_slice_def most_recent_def mult.commute)
  let ?w = "most_recent (nat (2 * h)) vals"
  have "(\<exists>n. 0 < n \<and> n \<le> length ?w \<and> h \<le> int (trailing_run thr (take n ?w))) \<longleftrightarrow>
        (\<exists>n\<le>length ?w. h \<le> int (trailing_run thr (take n ?w)))"
  proof
    assume "\<exists>n. 0 < n \<and> n \<le> length ?w \<and> h \<le> int (trailing_run thr (take n ?w))"
    then show "\<exists>n\<le>length ?w. h \<le> int (trailing_run thr (take n ?w))" by blast
  next
    assume "\<exists>n\<le>length ?w. h \<le> int (trailing_run thr (take n ?w))"
    then obtain n where n: "n \<le> length ?w" "h \<le> int (trailing_run thr (take n ?w))" by blast
    with pos have "0 < n" by (cases n) (simp_all add: trailing_run_def)
    with n show "\<exists>n. 0 < n \<and> n \<le> length ?w \<and> h \<le> int (trailing_run thr (take n ?w))"
      by blast
  qed
  then show ?thesis
    by (simp add: w streak_hit_iff streak_after_zero run_reaches_iff)
qed

text \<open>
  Outside the claim: for a negative \<open>hours\<close> the slice drops \<open>2 * |hours|\<close> samples
  from the front and the first sample left ends the loop, so a group is reported as soon
  as it has more samples than that.
\<close>

lemma streak_hit_negative_hours:
  assumes "h < 0"
  shows "streak_hit thr h 0 (last_slice (h * 2) vals) \<longleftrightarrow> nat (- (2 * h)) < length vals"
proof -
  have w: "last_slice (h * 2) vals = drop (nat (- (2 * h))) vals"
    using assms by (simp add: last_slice_def mult.commute)
  have "streak_hit thr h 0 ys \<longleftrightarrow> ys \<noteq> []" for ys
    using assms by (cases ys) (simp_all add: Let_def)
  then have "streak_hit thr h 0 (last_slice (h * 2) vals) \<longleftrightarrow>
             drop (nat (- (2 * h))) vals \<noteq> []"
    by (simp only: w)
  then show ?thesis by (simp add: not_le)
qed

lemma group_vals_append:
  "group_vals (group_append g k' x) k =
     (if key_eq k' k then group_vals g k @ [x] else group_vals g k)"
proof (induction g)
  case Nil
  show ?case by (simp add: group_vals_def)
next
  case (Cons p g)
  obtain k0 xs where p: "p = (k0, xs)" by (cases p)
  show ?case
  proof (cases "key_eq k0 k'")
    case True
    then have "key_eq k0 k \<longleftrightarrow> key_eq k' k" by (simp add: key_eq_def)
    with True p show ?thesis by (simp add: group_vals_def)
  next
    case False
    then have "key_eq k0 k \<Longrightarrow> \<not> key_eq k' k" by (auto simp: key_eq_def)
    with False p Cons.IH show ?thesis by (auto simp: group_vals_def)
  qed
qed

lemma group_append_keys:
  "set (map (\<lambda>p. map canon (fst p)) (group_append g k x)) =
     insert (map canon k) (set (map (\<lambda>p. map canon (fst p)) g))"
proof (induction g)
  case Nil
  show ?case by simp
next
  case (Cons p g)
  obtain k0 xs where p: "p = (k0, xs)" by (cases p)
  show ?case
  proof (cases "key_eq k0 k")
    case True
    then have "map canon k0 = map canon k" by (simp add: key_eq_def)
    with True p show ?thesis by auto
  next
    case False
    with p Cons.IH show ?thesis by auto
  qed
qed

lemma group_inv_append: "group_inv g \<Longrightarrow> group_inv (group_append g k x)"
proof (induction g)
  case Nil
  show ?case by (simp add: group_inv_def)
next
  case (Cons p g)
  obtain k0 xs where p: "p = (k0, xs)" by (cases p)
  from Cons.prems have g: "group_inv g" by (simp add: group_inv_def)
  show ?case
  proof (cases "key_eq k0 k")
    case True
    with p Cons.prems show ?thesis by (simp add: group_inv_def)
  next
    case False
    from Cons.IH [OF g] have "group_inv (group_append g k x)" .
    moreover have "map canon k0 \<notin> set (map (\<lambda>p. map canon (fst p)) (group_append g k x))"
      using Cons.prems False p unfolding group_append_keys
      by (auto simp: group_inv_def key_eq_def)
    ultimately show ?thesis using False p Cons.prems by (simp add: group_inv_def)
  qed
qed

lemma group_vals_unique:
  "group_inv g \<Longrightarrow> (k', xs) \<in> set g \<Longrightarrow> key_eq k' k \<Longrightarrow> group_vals g k = xs"
proof (induction g)
  case Nil
  then show ?case by simp
next
  case (Cons p g)
  show ?case
  proof (cases "key_eq (fst p) k")
    case True
    have "p = (k', xs)"
    proof (rule ccontr)
      assume "p \<noteq> (k', xs)"
      with Cons.prems(2) have "(k', xs) \<in> set g" by simp
      then have "map canon k' \<in> set (map (\<lambda>p. map canon (fst p)) g)" by force
      moreover have "map canon (fst p) = map canon k'"
        using True Cons.prems(3) by (simp add: key_eq_def)
      ultimately show False using Cons.prems(1) by (simp add: group_inv_def)
    qed
    with True show ?thesis by (simp add: group_vals_def)
  next
    case False
    with Cons.prems have "(k', xs) \<in> set g" "group_inv g" by (auto simp: group_inv_def)
    with Cons.IH Cons.prems(3) have "group_vals g k = xs" by simp
    with False show ?thesis by (simp add: group_vals_def)
  qed
qed

lemma group_vals_entry:
  "group_vals g k \<noteq> [] \<Longrightarrow> \<exists>k'. (k', group_vals g k) \<in> set g \<and> key_eq k' k"
proof -
  assume ne: "group_vals g k \<noteq> []"
  then obtain p where p: "find (\<lambda>p. key_eq (fst p) k) g = Some p"
    by (auto simp: group_vals_def split: option.splits)
  then have "p \<in> set g" "key_eq (fst p) k"
    by (auto simp: find_Some_iff)
  moreover from p have "group_vals g k = snd p" by (simp add: group_vals_def)
  ultimately have "(fst p, group_vals g k) \<in> set g \<and> key_eq (fst p) k" by simp
  then show ?thesis by blast
qed

lemma group_metric_result:
  "group_metric env by metric rows g = Inr g' \<Longrightarrow> group_inv g \<Longrightarrow>
   group_inv g' \<and>
   (\<forall>k. map Inr (group_vals g' k) = map Inr (group_vals g k) @ samples_of env by metric rows k)"
proof (induction rows arbitrary: g)
  case Nil
  then show ?case by (simp add: samples_of_def)
next
  case (Cons r rs)
  from Cons.prems(1) obtain x where
    x: "to_float env (row_get r metric) = Inr x" and
    rest: "group_metric env by metric rs (group_append g (row_key by r) x) = Inr g'"
    by (auto split: sum.splits)
  from Cons.IH [OF rest group_inv_append [OF Cons.prems(2)]]
  have inv: "group_inv g'" and
    vals: "\<And>k. map Inr (group_vals g' k) =
             map Inr (group_vals (group_append g (row_key by r) x) k) @
             samples_of env by metric rs k"
    by simp_all
  have "map Inr (group_vals g' k) = map Inr (group_vals g k) @ samples_of env by metric (r # rs) k"
    for k
    unfolding vals by (simp add: group_vals_append samples_of_def x)
  with inv show ?case by simp
qed

lemma group_metric_total:
  "\<forall>r\<in>set rows. \<exists>x. to_float env (row_get r metric) = Inr x \<Longrightarrow>
   \<exists>g'. group_metric env by metric rows g = Inr g'"
  by (induction rows arbitrary: g) auto

text \<open>
  Claim C6. Let \<open>hours\<close> be at least 0 and let the metric of every sample convert to a
  float. Then \<open>consecutive_below\<close> returns, and it reports a key exactly when the group
  of that key has samples and, in the scan of the group's most recent \<open>2 * hours\<close>
  samples in arrival order, the run of consecutive values strictly below the threshold
  that ends at some point of the scan is at least \<open>hours\<close> long. (For a negative
  \<open>hours\<close> the slice \<^verbatim>\<open>values[-hours*2:]\<close> drops samples from the front instead; a
  run of negative length means nothing and that case is left out.)
\<close>

theorem consecutive_below_hit_iff:
  assumes "0 \<le> h" and "\<forall>r\<in>set rows. \<exists>x. to_float env (row_get r metric) = Inr x"
  shows "\<exists>hits. consecutive_below env rows thr h by metric = Inr hits \<and>
           (\<forall>k. key_mem k hits \<longleftrightarrow>
              (\<exists>vals. vals \<noteq> [] \<and> samples_of env by metric rows k = map Inr vals \<and>
                      run_reaches thr h (most_recent (nat (2 * h)) vals)))"
proof -
  from group_metric_total [OF assms(2)] obtain g where
    g: "group_metric env by metric rows [] = Inr g" by blast
  have "group_inv ([] :: (hitkey \<times> pyfloat list) list)" by (simp add: group_inv_def)
  from group_metric_result [OF g this]
  have inv: "group_inv g" and
    vals: "\<And>k. map Inr (group_vals g k) = samples_of env by metric rows k"
    by (simp_all add: group_vals_def)
  let ?crit = "\<lambda>vals. streak_hit thr h 0 (last_slice (h * 2) vals)"
  let ?hits = "map fst (filter (\<lambda>(key, vals). ?crit vals) g)"
  have res: "consecutive_below env rows thr h by metric = Inr ?hits"
    by (simp add: consecutive_below_def g)
  have "key_mem k ?hits \<longleftrightarrow>
          (\<exists>vals. vals \<noteq> [] \<and> samples_of env by metric rows k = map Inr vals \<and>
                  run_reaches thr h (most_recent (nat (2 * h)) vals))" (is "?L \<longleftrightarrow> ?R") for k
  proof
    assume ?L
    then obtain k' xs where e: "(k', xs) \<in> set g" "?crit xs" "key_eq k k'"
      by (fastforce simp: key_mem_def list_ex_iff)
    from e(3) have "key_eq k' k" by (simp add: key_eq_def)
    with inv e(1) have gv: "group_vals g k = xs" by (rule group_vals_unique)
    from inv e(1) have ne: "xs \<noteq> []" by (auto simp: group_inv_def list_all_iff)
    with e(2) assms(1) have "run_reaches thr h (most_recent (nat (2 * h)) xs)"
      by (simp add: streak_hit_window)
    with ne gv vals [of k] show ?R by auto
  next
    assume ?R
    then obtain vs where vs: "vs \<noteq> []" "samples_of env by metric rows k = map Inr vs"
      "run_reaches thr h (most_recent (nat (2 * h)) vs)" by blast
    from vs(2) vals [of k] have "map Inr (group_vals g k) = (map Inr vs :: (error + pyfloat) list)"
      by simp
    then have gv: "group_vals g k = vs" by (simp add: inj_map_eq_map)
    with vs(1) group_vals_entry [of g k] obtain k' where
      e: "(k', vs) \<in> set g" "key_eq k' k" by auto
    from vs(1,3) assms(1) have "?crit vs" by (simp add: streak_hit_window)
    with e(1) have "k' \<in> set ?hits" by force
    moreover from e(2) have "key_eq k k'" by (simp add: key_eq_def)
    ultimately show ?L unfolding key_mem_def list_ex_iff by blast
  qed
  with res show ?thesis by blast
qed


lemma line1_samples_convert:
  "\<forall>r\<in>set line1_samples. \<exists>x. to_float plain_env (row_get r ''TargetAttain'') = Inr x"
  by (simp add: line1_samples_def row_get_def get_default_def)

lemma line1_samples_of:
  "samples_of plain_env [''Line''] ''TargetAttain'' line1_samples [PStr ''Line 1''] =
     map Inr [Finite (9 / 10), Finite (6 / 10), Finite (6 / 10), Finite (9 / 10)]"
  by code_simp

lemma line1_two_hours:
  "consecutive_below plain_env line1_samples (Finite (7 / 10)) 2 [''Line''] ''TargetAttain'' =
     Inr [[PStr ''Line 1'']]"
  by code_simp

lemma line1_three_hours:
  "consecutive_below plain_env line1_samples (Finite (7 / 10)) 3 [''Line''] ''TargetAttain'' =
     Inr []"
  by code_simp

text \<open>
  The example of the claim: the values 0.9, 0.6, 0.6, 0.9 of Line 1 with the threshold
  0.7 are a hit for two hours and no hit for three, in the code and in the criterion.
\<close>

theorem consecutive_below_hit_iff_witness:
  "consecutive_below plain_env line1_samples (Finite (7 / 10)) 2 [''Line''] ''TargetAttain'' =
     Inr [[PStr ''Line 1'']] \<and>
   run_reaches (Finite (7 / 10)) 2
     (most_recent 4 [Finite (9 / 10), Finite (6 / 10), Finite (6 / 10), Finite (9 / 10)]) \<and>
   consecutive_below plain_env line1_samples (Finite (7 / 10)) 3 [''Line''] ''TargetAttain'' =
     Inr [] \<and>
   \<not> run_reaches (Finite (7 / 10)) 3
     (most_recent 6 [Finite (9 / 10), Finite (6 / 10), Finite (6 / 10), Finite (9 / 10)])"
proof -
  let ?vals = "[Finite (9 / 10), Finite (6 / 10), Finite (6 / 10), Finite (9 / 10)]"
  let ?k = "[PStr ''Line 1'']"
  have two: "key_mem ?k [[PStr ''Line 1'']]" by code_simp
  have three: "\<not> key_mem ?k []" by code_simp
  from consecutive_below_hit_iff [of 2 line1_samples plain_env "''TargetAttain''"
      "Finite (7 / 10)" "[''Line'']"] line1_samples_convert line1_two_hours two
  obtain vals where v: "samples_of plain_env [''Line''] ''TargetAttain'' line1_samples ?k = map Inr vals"
    "run_reaches (Finite (7 / 10)) 2 (most_recent (nat (2 * 2)) vals)"
    by auto
  from v(1) have "map Inr vals = (map Inr ?vals :: (error + pyfloat) list)"
    by (simp only: line1_samples_of)
  then have "vals = ?vals" by (simp only: inj_map_eq_map inj_Inr)
  with v(2) have r2: "run_reaches (Finite (7 / 10)) 2 (most_recent 4 ?vals)" by simp
  from consecutive_below_hit_iff [of 3 line1_samples plain_env "''TargetAttain''"
      "Finite (7 / 10)" "[''Line'']"] line1_samples_convert line1_three_hours three
  have "\<not> (\<exists>vals. vals \<noteq> [] \<and>
           samples_of plain_env [''Line''] ''TargetAttain'' line1_samples ?k = map Inr vals \<and>
           run_reaches (Finite (7 / 10)) 3 (most_recent (nat (2 * 3)) vals))"
    by auto
  moreover have "nat (2 * 3) = 6" by simp
  ultimately have r3: "\<not> run_reaches (Finite (7 / 10)) 3 (most_recent 6 ?vals)"
    using line1_samples_of by (metis list.distinct(1))
  from r2 r3 line1_two_hours line1_three_hours show ?thesis by simp
qed

subsection \<open>Shape of a run\<close>

lemma emit_closed:
  "emit env clk rule k hs =
     (map (\<lambda>(h, i). mk_trigger env rule h (clk i)) (zip hs [k..<k + length hs]), k + length hs)"
proof (induction hs arbitrary: k)
  case Nil
  show ?case by simp
next
  case (Cons h hs)
  have "[k..<k + length (h # hs)] = k # [Suc k..<Suc k + length hs]"
    by (subst upt_conv_Cons) simp_all
  then show ?case by (simp add: Cons.IH)
qed

lemma eval_call_reads:
  assumes "eval_call env clk tb k c = Inr (h, k')"
  shows "k' = (if fst c = ''ROLLING_COUNT'' \<or> fst c = ''REPEAT_CAUSE'' then Suc k else k)"
proof -
  have w: "\<And>j r. with_clock j r = Inr (h, k') \<Longrightarrow> k' = j"
    by (simp add: with_clock_def split: sum.splits)
  show ?thesis
    using assms unfolding eval_call_def Let_def
    by (auto split: if_splits dest: w)
qed

lemma eval_call_clock:
  "eval_call env clk tb k c = Inr (h, k') \<Longrightarrow> k \<le> k' \<and> k' \<le> Suc k"
  by (drule eval_call_reads) simp

lemma rule_hit_sets_clock:
  "rule_hit_sets env clk tb k cs = Inr (hs, k') \<Longrightarrow> k \<le> k'"
proof (induction cs arbitrary: k hs k')
  case Nil
  then show ?case by simp
next
  case (Cons c cs)
  then show ?case
    by (fastforce split: sum.splits prod.splits dest: eval_call_clock)
qed

lemma eval_rule_cases:
  assumes "eval_rule env clk tb k rule = Inr (ts, k')"
  obtains (disabled) "\<not> enabled env rule" "ts = []" "k' = k"
  | (no_hits) parsed where "enabled env rule"
      "parse_iflogic (py_str env (get_default rule ''IfLogic'' (PStr []))) = Inr parsed"
      "rule_hit_sets env clk tb k parsed = Inr ([], k')" "ts = []"
  | (hits) parsed hsets k1 where "enabled env rule"
      "parse_iflogic (py_str env (get_default rule ''IfLogic'' (PStr []))) = Inr parsed"
      "rule_hit_sets env clk tb k parsed = Inr (hsets, k1)" "hsets \<noteq> []"
      "emit env clk rule k1 (set_order env (final_hits hsets)) = (ts, k')"
proof (cases "enabled env rule")
  case False
  with assms have "ts = []" "k' = k" by (simp_all add: eval_rule_def)
  with False show ?thesis by (rule disabled)
next
  case True
  show ?thesis
  proof (cases "parse_iflogic (py_str env (get_default rule ''IfLogic'' (PStr [])))")
    case (Inl e)
    with True assms show ?thesis by (simp add: eval_rule_def)
  next
    case (Inr parsed)
    show ?thesis
    proof (cases "rule_hit_sets env clk tb k parsed")
      case (Inl e)
      with True Inr assms show ?thesis by (simp add: eval_rule_def)
    next
      case rh: (Inr p)
      obtain hsets k1 where p: "p = (hsets, k1)" by (cases p)
      show ?thesis
      proof (cases "hsets = []")
        case e: True
        with True Inr rh p assms have "ts = []" "k' = k1" by (simp_all add: eval_rule_def)
        with True Inr rh p e show ?thesis by (intro no_hits) simp_all
      next
        case ne: False
        with True Inr rh p assms
        have "emit env clk rule k1 (set_order env (final_hits hsets)) = (ts, k')"
          by (simp add: eval_rule_def)
        with True Inr rh p ne show ?thesis by (intro hits) simp_all
      qed
    qed
  qed
qed

lemma eval_rule_clock:
  assumes "eval_rule env clk tb k rule = Inr (ts, k')"
  shows "k \<le> k'"
  using assms
proof (cases rule: eval_rule_cases)
  case disabled
  then show ?thesis by simp
next
  case (no_hits parsed)
  then show ?thesis by (simp add: rule_hit_sets_clock)
next
  case (hits parsed hsets k1)
  from hits(3) have "k \<le> k1" by (rule rule_hit_sets_clock)
  moreover from hits(5) have "k1 \<le> k'" by (simp add: emit_closed)
  ultimately show ?thesis by simp
qed

lemma run_rules_clock:
  "run_rules env clk tb k rules = Inr (ts, k') \<Longrightarrow> k \<le> k'"
proof (induction rules arbitrary: k ts k')
  case Nil
  then show ?case by simp
next
  case (Cons rule rules)
  then show ?case
    by (fastforce split: sum.splits prod.splits dest: eval_rule_clock)
qed

lemma eval_rule_shape:
  assumes "eval_rule env clk tb k rule = Inr (ts, k')"
  shows "\<exists>k1 hs. k \<le> k1 \<and> k' = k1 + length hs \<and>
           ts = map (\<lambda>(h, i). mk_trigger env rule h (clk i)) (zip hs [k1..<k1 + length hs])"
  using assms
proof (cases rule: eval_rule_cases)
  case disabled
  then show ?thesis by (intro exI [of _ k] exI [of _ "[]"]) simp
next
  case (no_hits parsed)
  from no_hits(3) have "k \<le> k'" by (rule rule_hit_sets_clock)
  with no_hits(4) show ?thesis by (intro exI [of _ k'] exI [of _ "[]"]) simp
next
  case (hits parsed hsets k1)
  from hits(3) have "k \<le> k1" by (rule rule_hit_sets_clock)
  with hits(5) show ?thesis
    by (intro exI [of _ k1] exI [of _ "set_order env (final_hits hsets)"])
       (auto simp: emit_closed)
qed

lemma run_rules_shape:
  "run_rules env clk tb k rules = Inr (ts, k') \<Longrightarrow>
     (\<exists>js. sorted_wrt (<) js \<and> set js \<subseteq> {k..<k'} \<and>
            map timestamp ts = map (\<lambda>i. isoformat env (clk i)) js) \<and>
     (\<forall>t\<in>set ts. \<exists>rule\<in>set rules. \<exists>h i. t = mk_trigger env rule h (clk i))"
proof (induction rules arbitrary: k ts k')
  case Nil
  then show ?case by simp
next
  case (Cons rule rules)
  from Cons.prems obtain ts1 k1 ts2 where
    r1: "eval_rule env clk tb k rule = Inr (ts1, k1)" and
    r2: "run_rules env clk tb k1 rules = Inr (ts2, k')" and
    ts: "ts = ts1 @ ts2"
    by (auto split: sum.splits prod.splits)
  from eval_rule_shape [OF r1] obtain k0 hs where
    k0: "k \<le> k0" "k1 = k0 + length hs" and
    ts1: "ts1 = map (\<lambda>(h, i). mk_trigger env rule h (clk i)) (zip hs [k0..<k0 + length hs])"
    by blast
  from run_rules_clock [OF r2] have k1: "k1 \<le> k'" .
  from Cons.IH [OF r2] obtain js where
    js: "sorted_wrt (<) js" "set js \<subseteq> {k1..<k'}"
      "map timestamp ts2 = map (\<lambda>i. isoformat env (clk i)) js" and
    from2: "\<forall>t\<in>set ts2. \<exists>rule\<in>set rules. \<exists>h i. t = mk_trigger env rule h (clk i)"
    by blast
  let ?is = "[k0..<k0 + length hs] @ js"
  have "map timestamp ts1 = map (\<lambda>i. isoformat env (clk i)) [k0..<k0 + length hs]"
    unfolding ts1 by (rule nth_equalityI) (simp_all add: mk_trigger_def Let_def)
  then have m: "map timestamp ts = map (\<lambda>i. isoformat env (clk i)) ?is"
    using js(3) ts by simp
  have s: "sorted_wrt (<) ?is"
    using js(1,2) k0 by (auto simp: sorted_wrt_append)
  have b: "set ?is \<subseteq> {k..<k'}"
    using js(2) k0 k1 by auto
  have f1: "\<forall>t\<in>set ts1. \<exists>h i. t = mk_trigger env rule h (clk i)"
    unfolding ts1 by (auto dest!: set_zip_leftD)
  have "\<forall>t\<in>set ts. \<exists>r\<in>set (rule # rules). \<exists>h i. t = mk_trigger env r h (clk i)"
    using f1 from2 ts by auto
  with m s b show ?case by blast
qed

lemma evaluate_rules_run:
  assumes "evaluate_rules env clk rules schedule hourly downtime standards = Inr ts"
  obtains ts0 n where
    "run_rules env clk \<lparr>schedule_rows = schedule, hourly_rows = hourly,
       downtime_rows = downtime, standards_rows = standards\<rparr> 0 rules = Inr (ts0, n)"
    "ts = rank_triggers ts0"
  using assms by (auto simp: evaluate_rules_def split: sum.splits prod.splits)

subsection \<open>Hit-sets of a rule\<close>

lemma key_mem_keyset: "key_mem x ks \<longleftrightarrow> map canon x \<in> keyset ks"
  by (auto simp: key_mem_def keyset_def key_eq_def list_ex_iff)

lemma final_hits_inter:
  assumes "hs \<noteq> []"
  shows "keyset (final_hits hs) = (\<Inter>h\<in>set hs. keyset h)"
proof (cases hs)
  case Nil
  with assms show ?thesis by simp
next
  case (Cons h rest)
  show ?thesis
  proof (cases "rest = []")
    case True
    with Cons show ?thesis by (simp add: final_hits_def)
  next
    case False
    have "keyset (filter (\<lambda>x. list_all (key_mem x) rest) h) =
            keyset h \<inter> (\<Inter>r\<in>set rest. keyset r)"
      by (auto simp: keyset_def list_all_iff key_mem_keyset [unfolded keyset_def])
    with Cons False show ?thesis by (simp add: final_hits_def)
  qed
qed

lemma eval_call_unrecognized:
  "\<not> recognized (fst c) \<Longrightarrow> eval_call env clk tb k c = Inr (None, k)"
  by (simp add: eval_call_def recognized_def Let_def)

lemma eval_call_recognized:
  assumes "recognized (fst c)" and "eval_call env clk tb k c = Inr (h, k')"
  shows "\<exists>x. h = Some x"
proof -
  have w: "\<And>j r. with_clock j r = Inr (h, k') \<Longrightarrow> \<exists>x. h = Some x"
    by (auto simp: with_clock_def split: sum.splits)
  show ?thesis
    using assms unfolding eval_call_def Let_def recognized_def
    by (auto split: if_splits dest: w)
qed

lemma rule_hit_sets_filter:
  "rule_hit_sets env clk tb k cs =
   rule_hit_sets env clk tb k (filter (\<lambda>c. recognized (fst c)) cs)"
proof (induction cs arbitrary: k)
  case Nil
  show ?case by simp
next
  case (Cons c cs)
  show ?case
  proof (cases "recognized (fst c)")
    case True
    then show ?thesis by (simp add: Cons.IH split: sum.splits prod.splits)
  next
    case False
    then show ?thesis
      by (simp add: eval_call_unrecognized Cons.IH split: sum.splits prod.splits)
  qed
qed

lemma rule_hit_sets_unrecognized:
  "list_all (\<lambda>c. \<not> recognized (fst c)) cs \<Longrightarrow> rule_hit_sets env clk tb k cs = Inr ([], k)"
  by (induction cs) (simp_all add: eval_call_unrecognized)

lemma rule_hit_sets_calls:
  "rule_hit_sets env clk tb k cs = Inr (hs, k') \<Longrightarrow>
   list_all2 (\<lambda>c h. \<exists>j j'. eval_call env clk tb j c = Inr (Some h, j'))
     (filter (\<lambda>c. recognized (fst c)) cs) hs"
proof (induction cs arbitrary: k hs k')
  case Nil
  then show ?case by simp
next
  case (Cons c cs)
  from Cons.prems obtain h k1 hs1 where
    c: "eval_call env clk tb k c = Inr (h, k1)" and
    r: "rule_hit_sets env clk tb k1 cs = Inr (hs1, k')" and
    hs: "hs = (case h of None \<Rightarrow> hs1 | Some x \<Rightarrow> x # hs1)"
    by (auto split: sum.splits prod.splits)
  note ih = Cons.IH [OF r]
  show ?case
  proof (cases "recognized (fst c)")
    case True
    with eval_call_recognized [OF True c] obtain x where x: "h = Some x" by blast
    with c have "\<exists>j j'. eval_call env clk tb j c = Inr (Some x, j')" by blast
    with True ih hs x show ?thesis by simp
  next
    case False
    with c have "h = None" by (simp add: eval_call_unrecognized)
    with False ih hs show ?thesis by simp
  qed
qed

text \<open>
  Claim C1. Take an enabled rule whose condition parses to the calls \<open>cs\<close> and whose
  calls evaluate without an exception to the hit-sets \<open>hs\<close>. Then \<open>hs\<close> holds, in
  order, the hit-set of every call with a name the evaluator treats (all \<open>N\<close> of them
  when every name is one of the six); the final hit-set is, as a set of keys, the
  intersection of the members of \<open>hs\<close>; it is the single hit-set when there is one;
  the triggers of the rule are those emitted for the final hit-set; and a rule with no
  call has no hit-set and emits no trigger.
\<close>

theorem rule_hits_are_intersection:
  assumes "enabled env rule"
    and "parse_iflogic (py_str env (get_default rule ''IfLogic'' (PStr []))) = Inr cs"
    and "rule_hit_sets env clk tb k cs = Inr (hs, k1)"
  shows "list_all2 (\<lambda>c h. \<exists>j j'. eval_call env clk tb j c = Inr (Some h, j'))
           (filter (\<lambda>c. recognized (fst c)) cs) hs \<and>
         (list_all (\<lambda>c. recognized (fst c)) cs \<longrightarrow> length hs = length cs) \<and>
         keyset (final_hits hs) = (if hs = [] then {} else (\<Inter>h\<in>set hs. keyset h)) \<and>
         (length hs = 1 \<longrightarrow> final_hits hs = hd hs) \<and>
         eval_rule env clk tb k rule =
           (if hs = [] then Inr ([], k1)
            else Inr (emit env clk rule k1 (set_order env (final_hits hs)))) \<and>
         (cs = [] \<longrightarrow> hs = [] \<and> eval_rule env clk tb k rule = Inr ([], k))"
proof -
  note calls = rule_hit_sets_calls [OF assms(3)]
  have len: "list_all (\<lambda>c. recognized (fst c)) cs \<longrightarrow> length hs = length cs"
  proof
    assume "list_all (\<lambda>c. recognized (fst c)) cs"
    then have "filter (\<lambda>c. recognized (fst c)) cs = cs" by (simp add: list_all_iff)
    with calls show "length hs = length cs" by (auto dest: list_all2_lengthD)
  qed
  have inter: "keyset (final_hits hs) = (if hs = [] then {} else (\<Inter>h\<in>set hs. keyset h))"
    by (simp add: final_hits_inter) (simp add: final_hits_def keyset_def)
  have one: "length hs = 1 \<longrightarrow> final_hits hs = hd hs"
    by (cases hs) (simp_all add: final_hits_def)
  have ev: "eval_rule env clk tb k rule =
           (if hs = [] then Inr ([], k1)
            else Inr (emit env clk rule k1 (set_order env (final_hits hs))))"
    using assms by (simp add: eval_rule_def)
  have zero: "cs = [] \<longrightarrow> hs = [] \<and> eval_rule env clk tb k rule = Inr ([], k)"
    using assms by (auto simp: eval_rule_def)
  from calls len inter one ev zero show ?thesis by blast
qed


lemma underperform_stops_enabled: "enabled plain_env rule_underperform_stops"
  by code_simp

lemma underperform_stops_calls:
  "parse_iflogic (py_str plain_env (get_default rule_underperform_stops ''IfLogic'' (PStr []))) =
     Inr [(''CONSEC_BELOW'', [(''hours'', AInt 2)]), (''ROLLING_COUNT'', [(''min'', AInt 4)])]"
  by code_simp

lemma underperform_stops_hit_sets:
  "rule_hit_sets plain_env still_clock demo_tables 0
     [(''CONSEC_BELOW'', [(''hours'', AInt 2)]), (''ROLLING_COUNT'', [(''min'', AInt 4)])] =
     Inr ([[[PStr ''Line 1'']], [[PStr ''Line 1''], [PStr ''Line 2'']]], 1)"
  by code_simp

theorem rule_hits_are_intersection_witness:
  "keyset (final_hits [[[PStr ''Line 1'']], [[PStr ''Line 1''], [PStr ''Line 2'']]]) =
     keyset [[PStr ''Line 1'']] \<inter> keyset [[PStr ''Line 1''], [PStr ''Line 2'']] \<and>
   eval_rule plain_env still_clock demo_tables 0 rule_underperform_stops =
     Inr (emit plain_env still_clock rule_underperform_stops 1
            (set_order plain_env
               (final_hits [[[PStr ''Line 1'']], [[PStr ''Line 1''], [PStr ''Line 2'']]])))"
  using rule_hits_are_intersection
    [OF underperform_stops_enabled underperform_stops_calls underperform_stops_hit_sets]
  by simp

text \<open>
  Claim C9. In an enabled rule whose condition parses, a call whose name is none of the
  six is passed over: it yields no hit-set, raises nothing and reads no clock, the
  hit-sets and the triggers of the rule are those of the rule without such calls, and a
  rule with only such calls emits no trigger.
\<close>

theorem unrecognized_calls_ignored:
  assumes "enabled env rule"
    and "parse_iflogic (py_str env (get_default rule ''IfLogic'' (PStr []))) = Inr cs"
  shows "list_all (\<lambda>c. recognized (fst c) \<or> (\<forall>j. eval_call env clk tb j c = Inr (None, j))) cs \<and>
         rule_hit_sets env clk tb k cs =
           rule_hit_sets env clk tb k (filter (\<lambda>c. recognized (fst c)) cs) \<and>
         eval_rule env clk tb k rule =
           (case rule_hit_sets env clk tb k (filter (\<lambda>c. recognized (fst c)) cs) of
              Inl e \<Rightarrow> Inl e
            | Inr (hs, k1) \<Rightarrow>
                if hs = [] then Inr ([], k1)
                else Inr (emit env clk rule k1 (set_order env (final_hits hs)))) \<and>
         (list_all (\<lambda>c. \<not> recognized (fst c)) cs \<longrightarrow> eval_rule env clk tb k rule = Inr ([], k))"
proof -
  have 1: "list_all (\<lambda>c. recognized (fst c) \<or> (\<forall>j. eval_call env clk tb j c = Inr (None, j))) cs"
    by (auto simp: list_all_iff eval_call_unrecognized)
  have 3: "eval_rule env clk tb k rule =
           (case rule_hit_sets env clk tb k (filter (\<lambda>c. recognized (fst c)) cs) of
              Inl e \<Rightarrow> Inl e
            | Inr (hs, k1) \<Rightarrow>
                if hs = [] then Inr ([], k1)
                else Inr (emit env clk rule k1 (set_order env (final_hits hs))))"
    using assms by (simp add: eval_rule_def rule_hit_sets_filter [symmetric])
  have 4: "list_all (\<lambda>c. \<not> recognized (fst c)) cs \<longrightarrow> eval_rule env clk tb k rule = Inr ([], k)"
    using assms by (simp add: eval_rule_def rule_hit_sets_unrecognized)
  from 1 3 4 rule_hit_sets_filter show ?thesis by blast
qed


lemma unknown_calls_enabled: "enabled plain_env rule_unknown_calls"
  by code_simp

lemma unknown_calls_parsed:
  "parse_iflogic (py_str plain_env (get_default rule_unknown_calls ''IfLogic'' (PStr []))) =
     Inr [(''FOO'', []), (''BAR'', [(''x'', AInt 1)])]"
  by code_simp

lemma unknown_calls_unrecognized:
  "list_all (\<lambda>c. \<not> recognized (fst c)) [(''FOO'', []), (''BAR'', [(''x'', AInt 1)])]"
  by code_simp

theorem unrecognized_calls_ignored_witness:
  "eval_rule plain_env still_clock demo_tables 0 rule_unknown_calls = Inr ([], 0) \<and>
   rule_hit_sets plain_env still_clock demo_tables 0
     [(''FOO'', []), (''BAR'', [(''x'', AInt 1)])] = Inr ([], 0)"
proof -
  note c9 = unrecognized_calls_ignored [OF unknown_calls_enabled unknown_calls_parsed,
      of still_clock demo_tables 0]
  from c9 unknown_calls_unrecognized
  have "eval_rule plain_env still_clock demo_tables 0 rule_unknown_calls = Inr ([], 0)"
    by blast
  moreover from c9 have "rule_hit_sets plain_env still_clock demo_tables 0
     [(''FOO'', []), (''BAR'', [(''x'', AInt 1)])] =
       rule_hit_sets plain_env still_clock demo_tables 0
         (filter (\<lambda>c. recognized (fst c)) [(''FOO'', []), (''BAR'', [(''x'', AInt 1)])])"
    by blast
  then have "rule_hit_sets plain_env still_clock demo_tables 0
     [(''FOO'', []), (''BAR'', [(''x'', AInt 1)])] = Inr ([], 0)"
    by (simp add: recognized_def)
  ultimately show ?thesis by simp
qed

subsection \<open>Errors of a run\<close>

text \<open>
  Claim C2 does not hold of the code. The loop of \<open>evaluate_rules\<close> calls
  \<open>parse_iflogic\<close> with no handler around it, so the \<^verbatim>\<open>ValueError\<close> of one malformed
  enabled rule ends the whole evaluation: the rule after it, which alone yields two
  triggers, yields none.
\<close>

theorem malformed_rule_aborts_evaluation:
  "evaluate_rules plain_env ticking_clock [rule_malformed, rule_missing_standard]
     [] hourly_demo [] standards_demo =
     Inl (ValueError ''Invalid DSL expression: missing standard'') \<and>
   evaluate_rules plain_env ticking_clock [rule_missing_standard] [] hourly_demo [] standards_demo =
     Inr [mk_trigger plain_env rule_missing_standard [PStr ''Line 1'', PStr ''SKU-002''] noon,
          mk_trigger plain_env rule_missing_standard [PStr ''Line 2'', PNone] (noon + 1000000)]"
  by code_simp

text \<open>
  In general: a table with an enabled rule whose condition does not parse never yields
  a list of triggers, whatever its other rules are.
\<close>

lemma malformed_rule_aborts_run:
  assumes "rule \<in> set rules" and "enabled env rule"
    and "parse_iflogic (py_str env (get_default rule ''IfLogic'' (PStr []))) = Inl e"
  shows "\<exists>e'. run_rules env clk tb k rules = Inl e'"
  using assms(1)
proof (induction rules arbitrary: k)
  case Nil
  then show ?case by simp
next
  case (Cons r rs)
  show ?case
  proof (cases "eval_rule env clk tb k r")
    case (Inl e')
    then show ?thesis by simp
  next
    case (Inr p)
    obtain ts k1 where p: "p = (ts, k1)" by (cases p)
    have "r \<noteq> rule"
    proof
      assume "r = rule"
      with assms(2,3) have "eval_rule env clk tb k r = Inl e" by (simp add: eval_rule_def)
      with Inr show False by simp
    qed
    with Cons.prems have "rule \<in> set rs" by simp
    from Cons.IH [OF this] obtain e' where "run_rules env clk tb k1 rs = Inl e'" by blast
    with Inr p show ?thesis by simp
  qed
qed

subsection \<open>Impact and timestamp of a trigger\<close>







text \<open>
  Claim C5, as the claim states it, fails: with a clock that advances by a second at
  every reading, the two triggers of one run carry two timestamps. The code calls
  \<^verbatim>\<open>datetime.now()\<close> inside the loop over the hit keys.
\<close>

theorem timestamps_differ_within_run:
  "evaluate_rules plain_env ticking_clock [rule_missing_standard] [] hourly_demo [] standards_demo =
     Inr [mk_trigger plain_env rule_missing_standard [PStr ''Line 1'', PStr ''SKU-002''] noon,
          mk_trigger plain_env rule_missing_standard [PStr ''Line 2'', PNone] (noon + 1000000)] \<and>
   timestamp (mk_trigger plain_env rule_missing_standard [PStr ''Line 1'', PStr ''SKU-002''] noon) =
     ''63839707200'' \<and>
   timestamp (mk_trigger plain_env rule_missing_standard [PStr ''Line 2'', PNone] (noon + 1000000)) =
     ''63839707201''"
  by code_simp

text \<open>
  Claim C5, amended. Every trigger carries the reading of the clock taken at its own
  emission: the timestamps of a run are the formatted readings of as many distinct calls
  of \<^verbatim>\<open>datetime.now()\<close>. So the triggers of a run share one timestamp when all readings
  of the run format to the same text, and only then need they.
\<close>

theorem timestamps_are_emission_readings:
  assumes "evaluate_rules env clk rules schedule hourly downtime standards = Inr ts"
  shows "(\<exists>js. distinct js \<and>
            mset (map timestamp ts) = mset (map (\<lambda>i. isoformat env (clk i)) js)) \<and>
         ((\<forall>i. isoformat env (clk i) = s) \<longrightarrow> (\<forall>t\<in>set ts. timestamp t = s))"
proof -
  from assms(1) obtain ts0 n where
    run: "run_rules env clk \<lparr>schedule_rows = schedule, hourly_rows = hourly,
              downtime_rows = downtime, standards_rows = standards\<rparr> 0 rules = Inr (ts0, n)"
    and ts: "ts = rank_triggers ts0"
    by (rule evaluate_rules_run)
  from run_rules_shape [OF run] obtain js where
    js: "sorted_wrt (<) js" "map timestamp ts0 = map (\<lambda>i. isoformat env (clk i)) js" by blast
  have d: "distinct js" using js(1) by (simp add: strict_sorted_iff)
  have m: "mset (map timestamp ts) = mset (map timestamp ts0)"
    unfolding ts by (simp add: rank_triggers_def)
  with js(2) have e: "mset (map timestamp ts) = mset (map (\<lambda>i. isoformat env (clk i)) js)"
    by simp
  have "\<forall>t\<in>set ts. timestamp t = s" if "\<forall>i. isoformat env (clk i) = s"
  proof
    fix t assume "t \<in> set ts"
    then have "timestamp t \<in> set (map timestamp ts)" by simp
    also have "set (map timestamp ts) = set (map (\<lambda>i. isoformat env (clk i)) js)"
      using e by (rule mset_eq_setD)
    finally show "timestamp t = s" using that by auto
  qed
  with d e show ?thesis by blast
qed

lemma missing_standard_still:
  "evaluate_rules plain_env still_clock [rule_missing_standard] [] hourly_demo [] standards_demo =
     Inr [mk_trigger plain_env rule_missing_standard [PStr ''Line 1'', PStr ''SKU-002''] noon,
          mk_trigger plain_env rule_missing_standard [PStr ''Line 2'', PNone] noon]"
  by code_simp

theorem timestamps_are_emission_readings_witness:
  "map timestamp
     [mk_trigger plain_env rule_missing_standard [PStr ''Line 1'', PStr ''SKU-002''] noon,
      mk_trigger plain_env rule_missing_standard [PStr ''Line 2'', PNone] noon] =
     [''63839707200'', ''63839707200'']"
proof -
  have "isoformat plain_env noon = ''63839707200''"
    by code_simp
  then have "\<forall>i. isoformat plain_env (still_clock i) = ''63839707200''"
    by (simp add: still_clock_def)
  with timestamps_are_emission_readings [OF missing_standard_still, of "''63839707200''"]
  show ?thesis by simp
qed

subsection \<open>What a run takes from the clock\<close>











end
